theory Spec2Isabelle
  imports Main
begin

unbundle bit_operations_syntax

section \<open>Python values used by the scanner\<close>

text \<open>
  The scanner (\<^verbatim>\<open>src/scanner.py\<close>, class \<^verbatim>\<open>NetworkScanner\<close>) works on
  strings, on Python integers and on the address objects of the standard module
  \<^verbatim>\<open>ipaddress\<close>. Strings are lists of characters with codes below 256. An
  exception is a value of \<open>py_error\<close>, and a computation that may raise returns
  \<open>py_error + 'a\<close> with \<open>Inl\<close> for the exception.
\<close>

datatype py_error =
    Invalid_range_format            \<comment> \<open>\<^verbatim>\<open>ValueError(_("Invalid range format!"))\<close>, raised by the scanner\<close>
  | Unpack_error                    \<comment> \<open>ValueError of a tuple unpacking\<close>
  | Invalid_literal string          \<comment> \<open>ValueError of \<^verbatim>\<open>int(s)\<close>\<close>
  | Digit_limit string              \<comment> \<open>ValueError of \<^verbatim>\<open>int(s)\<close>: more than 4300 digits\<close>
  | Address_empty                   \<comment> \<open>AddressValueError: address cannot be empty\<close>
  | Unexpected_slash string         \<comment> \<open>AddressValueError: unexpected '/'\<close>
  | Expected_4_octets string        \<comment> \<open>AddressValueError: expected 4 octets\<close>
  | Empty_octet                     \<comment> \<open>AddressValueError: empty octet\<close>
  | Not_decimal string              \<comment> \<open>AddressValueError: only decimal digits permitted\<close>
  | Too_long string                 \<comment> \<open>AddressValueError: at most 3 characters permitted\<close>
  | Leading_zero string             \<comment> \<open>AddressValueError: leading zeros are not permitted\<close>
  | Octet_gt_255 nat                \<comment> \<open>AddressValueError: octet (> 255) not permitted\<close>
  | Only_one_slash string           \<comment> \<open>AddressValueError: only one '/' permitted\<close>
  | Invalid_netmask string          \<comment> \<open>NetmaskValueError\<close>
  | Not_a_network string            \<comment> \<open>ValueError of \<^verbatim>\<open>ip_network\<close>\<close>
  | Type_error                      \<comment> \<open>TypeError of a call with the wrong number of arguments\<close>
  | Runtime_error string            \<comment> \<open>RuntimeError of the thread pool\<close>
  | OS_error string                 \<comment> \<open>OSError and its subclasses, raised by the socket layer\<close>

text \<open>
  \<^verbatim>\<open>str(e)\<close>. The scanner's own exception carries its message; the text of a library
  exception is not modelled and enters as the parameter \<open>lib\<close>. The translation
  function \<^verbatim>\<open>_\<close> (gettext) is the identity: messages are the untranslated ones.
\<close>

fun str_error :: "(py_error \<Rightarrow> string) \<Rightarrow> py_error \<Rightarrow> string" where
  "str_error lib Invalid_range_format = ''Invalid range format!''"
| "str_error lib e = lib e"

subsection \<open>Strings\<close>

text \<open>\<^verbatim>\<open>s.split(c)\<close> for a one-character separator: never an empty list.\<close>

fun split_on :: "char \<Rightarrow> string \<Rightarrow> string list" where
  "split_on c [] = [[]]"
| "split_on c (x # xs) =
     (if x = c then [] # split_on c xs
      else (case split_on c xs of [] \<Rightarrow> [[x]] | y # ys \<Rightarrow> (x # y) # ys))"

text \<open>\<^verbatim>\<open>s.rsplit(c, 1)\<close>: split at the last occurrence of \<open>c\<close>, if there is one.\<close>

definition rsplit1 :: "char \<Rightarrow> string \<Rightarrow> string list" where
  "rsplit1 c s =
     (if c \<in> set s
      then [rev (tl (dropWhile (\<lambda>x. x \<noteq> c) (rev s))), rev (takeWhile (\<lambda>x. x \<noteq> c) (rev s))]
      else [s])"

text \<open>\<^verbatim>\<open>sep.join(parts)\<close>.\<close>

fun join :: "string \<Rightarrow> string list \<Rightarrow> string" where
  "join sep [] = []"
| "join sep [p] = p"
| "join sep (p # q # ps) = p @ sep @ join sep (q # ps)"

subsection \<open>Integers and their decimal form\<close>

definition is_ascii_digit :: "char \<Rightarrow> bool" where
  "is_ascii_digit c = (c \<in> set ''0123456789'')"

text \<open>The value of a digit: its place among the ten digits.\<close>

definition digit_val :: "char \<Rightarrow> nat" where
  "digit_val c = length (takeWhile (\<lambda>d. d \<noteq> c) ''0123456789'')"

definition decimal :: "string \<Rightarrow> nat" where
  "decimal s = foldl (\<lambda>a c. 10 * a + digit_val c) 0 s"

text \<open>
  The white space that \<^verbatim>\<open>int\<close> skips: tab, LF, VT, FF, CR, the four separators FS,
  GS, RS and US, space, NEL and the no-break space.
\<close>

definition is_space :: "char \<Rightarrow> bool" where
  "is_space c = (of_char c \<in> {9, 10, 11, 12, 13, 28, 29, 30, 31, 32, 133, 160 :: nat})"

text \<open>Digits, with single underscores allowed between two digits.\<close>

fun int_body_ok :: "string \<Rightarrow> bool" where
  "int_body_ok [] = False"
| "int_body_ok [c] = is_ascii_digit c"
| "int_body_ok (c # d # s) =
     (is_ascii_digit c \<and> (if d = CHR ''_'' then int_body_ok s else int_body_ok (d # s)))"

text \<open>
  The digits of \<^verbatim>\<open>int(s)\<close>, after the sign: at most 4300 of them, the default of
  \<^verbatim>\<open>sys.set_int_max_str_digits\<close>.
\<close>

definition max_str_digits :: nat where
  "max_str_digits = 4300"

definition int_digits :: "string \<Rightarrow> string \<Rightarrow> py_error + int" where
  "int_digits s b =
     (if \<not> int_body_ok b then Inl (Invalid_literal s)
      else if length (filter (\<lambda>x. x \<noteq> CHR ''_'') b) > max_str_digits then Inl (Digit_limit s)
      else Inr (int (decimal (filter (\<lambda>x. x \<noteq> CHR ''_'') b))))"

text \<open>\<^verbatim>\<open>int(s)\<close> in base 10: white space around, an optional sign, the digits.\<close>

definition py_int :: "string \<Rightarrow> py_error + int" where
  "py_int s =
     (let t = rev (dropWhile is_space (rev (dropWhile is_space s)))
      in case t of
           [] \<Rightarrow> Inl (Invalid_literal s)
         | c # b \<Rightarrow>
             if c = CHR ''-'' then
               (case int_digits s b of Inl e \<Rightarrow> Inl e | Inr n \<Rightarrow> Inr (- n))
             else if c = CHR ''+'' then int_digits s b
             else int_digits s t)"

text \<open>\<^verbatim>\<open>str(n)\<close> for an integer.\<close>

definition digit_char :: "nat \<Rightarrow> char" where
  "digit_char n = ''0123456789'' ! n"

fun str_nat :: "nat \<Rightarrow> string" where
  "str_nat n = (if n < 10 then [digit_char n] else str_nat (n div 10) @ [digit_char (n mod 10)])"

declare str_nat.simps [simp del]

definition str_int :: "int \<Rightarrow> string" where
  "str_int i = (if i < 0 then CHR ''-'' # str_nat (nat (- i)) else str_nat (nat i))"

subsection \<open>Computations that may raise\<close>

text \<open>Sequencing: the first exception ends the computation.\<close>

fun traverse :: "('a \<Rightarrow> py_error + 'b) \<Rightarrow> 'a list \<Rightarrow> py_error + 'b list" where
  "traverse f [] = Inr []"
| "traverse f (x # xs) =
     (case f x of
        Inl e \<Rightarrow> Inl e
      | Inr y \<Rightarrow> (case traverse f xs of Inl e \<Rightarrow> Inl e | Inr ys \<Rightarrow> Inr (y # ys)))"

section \<open>The module ipaddress, for IPv4\<close>

text \<open>
  An \<^verbatim>\<open>IPv4Address\<close> is its 32-bit number. The definitions follow
  \<^verbatim>\<open>ipaddress.py\<close> of CPython 3.12 (\<^verbatim>\<open>_parse_octet\<close>,
  \<^verbatim>\<open>_ip_int_from_string\<close>, \<^verbatim>\<open>IPv4Address.__init__\<close>,
  \<^verbatim>\<open>_make_netmask\<close>, \<^verbatim>\<open>IPv4Network.__init__\<close>, \<^verbatim>\<open>hosts\<close>).
\<close>

type_synonym ipv4 = nat

definition parse_octet :: "string \<Rightarrow> py_error + nat" where
  "parse_octet s =
     (if s = [] then Inl Empty_octet
      else if \<not> list_all is_ascii_digit s then Inl (Not_decimal s)
      else if length s > 3 then Inl (Too_long s)
      else if s \<noteq> ''0'' \<and> hd s = CHR ''0'' then Inl (Leading_zero s)
      else if decimal s > 255 then Inl (Octet_gt_255 (decimal s))
      else Inr (decimal s))"

text \<open>\<^verbatim>\<open>int.from_bytes(octets, 'big')\<close>.\<close>

definition from_bytes :: "nat list \<Rightarrow> nat" where
  "from_bytes bs = foldl (\<lambda>a b. 256 * a + b) 0 bs"

definition ip_int_from_string :: "string \<Rightarrow> py_error + ipv4" where
  "ip_int_from_string s =
     (if s = [] then Inl Address_empty
      else let octets = split_on CHR ''.'' s
           in if length octets \<noteq> 4 then Inl (Expected_4_octets s)
              else (case traverse parse_octet octets of
                      Inl e \<Rightarrow> Inl e
                    | Inr bs \<Rightarrow> Inr (from_bytes bs)))"

definition IPv4Address :: "string \<Rightarrow> py_error + ipv4" where
  "IPv4Address s =
     (if CHR ''/'' \<in> set s then Inl (Unexpected_slash s) else ip_int_from_string s)"

text \<open>\<^verbatim>\<open>str(address)\<close>: the four bytes in decimal, joined by dots.\<close>

definition to_bytes4 :: "ipv4 \<Rightarrow> nat list" where
  "to_bytes4 a = [a div 16777216 mod 256, a div 65536 mod 256, a div 256 mod 256, a mod 256]"

definition str_ipv4 :: "ipv4 \<Rightarrow> string" where
  "str_ipv4 a = join ''.'' (map str_nat (to_bytes4 a))"

subsection \<open>Networks\<close>

definition ALL_ONES :: nat where
  "ALL_ONES = 2 ^ 32 - 1"

text \<open>
  \<^verbatim>\<open>_count_righthand_zero_bits(number, 32)\<close> for a number below \<open>2 ^ 32\<close>: the number
  of zero bits at its low end, 32 for zero.
\<close>

fun low_zero_bits :: "nat \<Rightarrow> nat \<Rightarrow> nat" where
  "low_zero_bits 0 n = 0"
| "low_zero_bits (Suc k) n = (if odd n then 0 else Suc (low_zero_bits k (n div 2)))"

definition count_righthand_zero_bits :: "nat \<Rightarrow> nat" where
  "count_righthand_zero_bits n = (if n = 0 then 32 else min 32 (low_zero_bits 32 n))"

definition prefix_from_ip_int :: "nat \<Rightarrow> nat option" where
  "prefix_from_ip_int n =
     (let trailing_zeroes = count_righthand_zero_bits n;
          prefixlen = 32 - trailing_zeroes;
          leading_ones = drop_bit trailing_zeroes n;
          all_ones = 2 ^ prefixlen - 1
      in if leading_ones \<noteq> all_ones then None else Some prefixlen)"

definition prefix_from_prefix_string :: "string \<Rightarrow> py_error + nat" where
  "prefix_from_prefix_string m =
     (if \<not> (m \<noteq> [] \<and> list_all is_ascii_digit m) then Inl (Invalid_netmask m)
      else if decimal m > 32 then Inl (Invalid_netmask m)
      else Inr (decimal m))"

definition prefix_from_ip_string :: "string \<Rightarrow> py_error + nat" where
  "prefix_from_ip_string m =
     (case ip_int_from_string m of
        Inl e \<Rightarrow> Inl (Invalid_netmask m)
      | Inr n \<Rightarrow>
          (case prefix_from_ip_int n of
             Some p \<Rightarrow> Inr p
           | None \<Rightarrow>
               (case prefix_from_ip_int (n XOR ALL_ONES) of
                  Some p \<Rightarrow> Inr p
                | None \<Rightarrow> Inl (Invalid_netmask m))))"

definition ip_int_from_prefix :: "nat \<Rightarrow> nat" where
  "ip_int_from_prefix p = ALL_ONES XOR (drop_bit p ALL_ONES)"

text \<open>\<^verbatim>\<open>_make_netmask\<close> of a string: the netmask and the prefix length.\<close>

definition make_netmask :: "string \<Rightarrow> py_error + (nat \<times> nat)" where
  "make_netmask m =
     (case (case prefix_from_prefix_string m of
              Inl e \<Rightarrow> prefix_from_ip_string m
            | Inr p \<Rightarrow> Inr p) of
        Inl e \<Rightarrow> Inl e
      | Inr p \<Rightarrow> Inr (ip_int_from_prefix p, p))"

record ipv4network =
  addr_given :: ipv4          \<comment> \<open>the address before the slash, as written\<close>
  network_address :: ipv4
  netmask :: nat
  prefixlen :: nat

text \<open>
  \<^verbatim>\<open>IPv4Network(address, strict=False)\<close> for a string. Without a slash the mask is
  the integer 32.
\<close>

definition IPv4Network :: "string \<Rightarrow> py_error + ipv4network" where
  "IPv4Network address =
     (let parts = split_on CHR ''/'' address
      in if length parts > 2 then Inl (Only_one_slash address)
         else (case IPv4Address (hd parts) of
                 Inl e \<Rightarrow> Inl e
               | Inr packed \<Rightarrow>
                   (case (if length parts > 1 then make_netmask (parts ! 1)
                          else Inr (ip_int_from_prefix 32, 32)) of
                      Inl e \<Rightarrow> Inl e
                    | Inr (nm, p) \<Rightarrow>
                        Inr \<lparr>addr_given = packed,
                             network_address =
                               (if packed AND nm \<noteq> packed then packed AND nm else packed),
                             netmask = nm,
                             prefixlen = p\<rparr>)))"

text \<open>
  \<^verbatim>\<open>ip_network(address, strict=False)\<close>. The library tries an IPv4 network first and
  an IPv6 network second; IPv6 is outside the model, so a string that is no IPv4 network
  raises here.
\<close>

definition ip_network :: "string \<Rightarrow> py_error + ipv4network" where
  "ip_network address =
     (case IPv4Network address of
        Inl e \<Rightarrow> Inl (Not_a_network address)
      | Inr net \<Rightarrow> Inr net)"

definition broadcast_address :: "ipv4network \<Rightarrow> ipv4" where
  "broadcast_address net = network_address net OR (netmask net XOR ALL_ONES)"

text \<open>
  \<^verbatim>\<open>list(net.hosts())\<close>. The constructor replaces \<^verbatim>\<open>hosts\<close> for the prefix lengths
  31 (every address of the network) and 32 (the address as given).
\<close>

definition hosts :: "ipv4network \<Rightarrow> ipv4 list" where
  "hosts net =
     (if prefixlen net = 31 then [network_address net ..< broadcast_address net + 1]
      else if prefixlen net = 32 then [addr_given net]
      else [network_address net + 1 ..< broadcast_address net])"

section \<open>The range parser\<close>

text \<open>
  The list comprehension of \<^verbatim>\<open>parse_ip_range\<close>:
  \<^verbatim>\<open>[IPv4Address(f"{base_network}.{i}") for i in range(start_ip, end_ip + 1)]\<close>.
\<close>

definition range_hosts :: "string \<Rightarrow> int \<Rightarrow> int \<Rightarrow> py_error + ipv4 list" where
  "range_hosts base_network start_ip end_ip =
     traverse (\<lambda>i. IPv4Address (base_network @ ''.'' @ str_int i)) [start_ip..end_ip]"

definition parse_ip_range :: "string \<Rightarrow> py_error + ipv4 list" where
  "parse_ip_range ip_range =
     (if CHR ''/'' \<in> set ip_range then
        (case ip_network ip_range of
           Inl e \<Rightarrow> Inl e
         | Inr net \<Rightarrow> Inr (hosts net))
      else if CHR ''-'' \<in> set ip_range then
        (case rsplit1 CHR ''-'' ip_range of
           [base_ip, range_part] \<Rightarrow>
             (let base_parts = split_on CHR ''.'' base_ip
              in if length base_parts = 4 then
                   (case py_int (base_parts ! 3) of
                      Inl e \<Rightarrow> Inl e
                    | Inr start_ip \<Rightarrow>
                        (case py_int range_part of
                           Inl e \<Rightarrow> Inl e
                         | Inr end_ip \<Rightarrow>
                             range_hosts (join ''.'' (take 3 base_parts)) start_ip end_ip))
                 else if length base_parts = 3 then
                   (case py_int range_part of
                      Inl e \<Rightarrow> Inl e
                    | Inr end_ip \<Rightarrow> range_hosts base_ip 1 end_ip)
                 else Inl Invalid_range_format)
         | _ \<Rightarrow> Inl Unpack_error)
      else
        (case IPv4Address ip_range of
           Inl e \<Rightarrow> Inl e
         | Inr a \<Rightarrow> Inr [a]))"

text \<open>The body of the \<^verbatim>\<open>try\<close> of \<^verbatim>\<open>validate_ip_range\<close>.\<close>

definition validate_checks :: "string \<Rightarrow> py_error + unit" where
  "validate_checks ip_range =
     (if CHR ''/'' \<in> set ip_range then
        (case ip_network ip_range of Inl e \<Rightarrow> Inl e | Inr net \<Rightarrow> Inr ())
      else if CHR ''-'' \<in> set ip_range then
        (case rsplit1 CHR ''-'' ip_range of
           [base_ip, range_part] \<Rightarrow>
             (let base_parts = split_on CHR ''.'' base_ip
              in if length base_parts = 4 then
                   (case IPv4Address base_ip of
                      Inl e \<Rightarrow> Inl e
                    | Inr a \<Rightarrow> (case py_int range_part of Inl e \<Rightarrow> Inl e | Inr n \<Rightarrow> Inr ()))
                 else if length base_parts = 3 then
                   (case IPv4Address (base_ip @ ''.1'') of
                      Inl e \<Rightarrow> Inl e
                    | Inr a \<Rightarrow> (case py_int range_part of Inl e \<Rightarrow> Inl e | Inr n \<Rightarrow> Inr ()))
                 else Inl Invalid_range_format)
         | _ \<Rightarrow> Inl Unpack_error)
      else
        (case IPv4Address ip_range of Inl e \<Rightarrow> Inl e | Inr a \<Rightarrow> Inr ()))"

definition validate_ip_range :: "(py_error \<Rightarrow> string) \<Rightarrow> string \<Rightarrow> bool \<times> string" where
  "validate_ip_range lib ip_range =
     (if ip_range = [] then (False, ''Please enter an IP range'')
      else (case validate_checks ip_range of
              Inr u \<Rightarrow> (True, ''Valid IP range'')
            | Inl e \<Rightarrow> (False, ''Invalid IP range: '' @ str_error lib e)))"

section \<open>The scanner\<close>

subsection \<open>State\<close>

text \<open>A device is the dictionary that \<^verbatim>\<open>scan_single_ip\<close> builds.\<close>

record device =
  hostname :: string
  ip :: string
  ports :: string

text \<open>The fields of a \<^verbatim>\<open>NetworkScanner\<close>; \<^verbatim>\<open>common_ports\<close> is never assigned again.\<close>

record scanner =
  is_scanning :: bool
  hosts_scanned :: nat
  total_hosts :: nat
  partial_results :: "device list"

definition common_ports :: "nat list" where
  "common_ports = [22, 80, 443, 3389, 53, 21, 23, 8080, 8443, 8006, 5000]"

definition new_scanner :: scanner where
  "new_scanner =
     \<lparr>is_scanning = False, hosts_scanned = 0, total_hosts = 0, partial_results = []\<rparr>"

text \<open>
  What the network and the operating system answer. \<open>connect_ex w a p t\<close> is the
  result of creating a socket, setting the timeout of \<open>t\<close> milliseconds and calling
  \<^verbatim>\<open>connect_ex((a, p))\<close>; \<open>ping\<close> is the truth value of what
  \<^verbatim>\<open>ping3.ping\<close> returns; \<open>gethostbyaddr\<close> is the first component of the
  library's answer. \<open>lib_str\<close> is \<^verbatim>\<open>str(e)\<close> for a library exception.
\<close>

record world =
  connect_ex :: "string \<Rightarrow> nat \<Rightarrow> nat \<Rightarrow> py_error + int"
  ping :: "string \<Rightarrow> py_error + bool"
  gethostbyaddr :: "string \<Rightarrow> py_error + string"
  gethostname :: string
  gethostbyname :: "string \<Rightarrow> py_error + string"
  lib_str :: "py_error \<Rightarrow> string"

subsection \<open>The probe of one host\<close>

text \<open>\<^verbatim>\<open>try: body except: handler\<close>.\<close>

definition try_except :: "py_error + 'a \<Rightarrow> (py_error \<Rightarrow> py_error + 'a) \<Rightarrow> py_error + 'a" where
  "try_except body handler = (case body of Inl e \<Rightarrow> handler e | Inr v \<Rightarrow> Inr v)"

definition is_port_open :: "world \<Rightarrow> string \<Rightarrow> nat \<Rightarrow> py_error + bool" where
  "is_port_open w a port =
     try_except
       (case connect_ex w a port 500 of Inl e \<Rightarrow> Inl e | Inr r \<Rightarrow> Inr (r = 0))
       (\<lambda>e. Inr False)"

text \<open>
  Lines 88 to 96, entered with \<^verbatim>\<open>alive\<close> false: the value of \<^verbatim>\<open>alive\<close>
  afterwards.
\<close>

definition liveness_fallback :: "world \<Rightarrow> string \<Rightarrow> py_error + bool" where
  "liveness_fallback w a =
     try_except
       (case connect_ex w a 80 100 of
          Inl e \<Rightarrow> Inl e
        | Inr r \<Rightarrow>
            if r = 0 then Inr True
            else (case ping w a of Inl e \<Rightarrow> Inl e | Inr b \<Rightarrow> Inr b))
       (\<lambda>e. Inr False)"

text \<open>Lines 99 to 103.\<close>

definition resolve_hostname :: "world \<Rightarrow> string \<Rightarrow> py_error + string" where
  "resolve_hostname w a = try_except (gethostbyaddr w a) (\<lambda>e. Inr a)"

text \<open>Lines 105 to 109.\<close>

definition make_device :: "string \<Rightarrow> string \<Rightarrow> nat list \<Rightarrow> device" where
  "make_device name a open_ports =
     \<lparr>hostname = name, ip = a,
      ports = (if open_ports \<noteq> [] then join '', '' (map str_nat open_ports)
               else ''Host alive (no open ports detected)'')\<rparr>"

text \<open>
  A call of \<^verbatim>\<open>scan_single_ip\<close> is a task of the thread pool. Its program counter
  names the line it executes next; each step reads or writes the shared state once.
\<close>

datatype wpc =
    W_pending                 \<comment> \<open>submitted, not started\<close>
  | W_entry                   \<comment> \<open>line 74\<close>
  | W_ports "nat list"        \<comment> \<open>line 81 with the ports still to try; line 87 when none is left\<close>
  | W_check                   \<comment> \<open>line 98\<close>
  | W_append                  \<comment> \<open>lines 99 to 113\<close>
  | W_count                   \<comment> \<open>lines 116 to 119\<close>
  | W_cancelled               \<comment> \<open>the future was cancelled before it started\<close>
  | W_returned                \<comment> \<open>returned at line 75 or 82\<close>
  | W_finished                \<comment> \<open>returned after line 119\<close>
  | W_raised py_error         \<comment> \<open>ended with an exception\<close>

record worker =
  w_ip :: string
  w_pc :: wpc
  alive :: bool
  open_ports :: "nat list"

definition worker_done :: "worker \<Rightarrow> bool" where
  "worker_done t =
     (case w_pc t of
        W_cancelled \<Rightarrow> True | W_returned \<Rightarrow> True | W_finished \<Rightarrow> True | W_raised e \<Rightarrow> True
      | _ \<Rightarrow> False)"

definition worker_running :: "worker \<Rightarrow> bool" where
  "worker_running t = (\<not> worker_done t \<and> w_pc t \<noteq> W_pending)"

subsection \<open>The scan thread\<close>

text \<open>The calls of \<^verbatim>\<open>GLib.idle_add\<close>, in the order they are made.\<close>

datatype event =
    Progress nat nat          \<comment> \<open>\<^verbatim>\<open>progress_callback(scanned, total)\<close>\<close>
  | Complete "device list"    \<comment> \<open>\<^verbatim>\<open>callback(devices_sorted)\<close>\<close>
  | Failed string             \<comment> \<open>\<^verbatim>\<open>error_callback(message)\<close>\<close>

text \<open>The program counter of \<^verbatim>\<open>do_scan\<close>, by line.\<close>

datatype cpc =
    No_thread
  | L152 | L153 | L154 | L159 | L160 | L163
  | L_submit "ipv4 list"      \<comment> \<open>line 168 with the hosts still to submit\<close>
  | L_wait nat                \<comment> \<open>line 175 with the number of futures still to wait for\<close>
  | L_exit                    \<comment> \<open>the end of the \<^verbatim>\<open>with\<close> block: the pool shuts down\<close>
  | L187 | L188 | L189
  | L190 "device list"
  | L_unwind py_error         \<comment> \<open>an exception leaves the \<^verbatim>\<open>with\<close> block: the pool shuts down\<close>
  | L193 py_error
  | L194 py_error

text \<open>
  The scanner together with one scan thread: its arguments, its program counter, its
  local variables, its tasks and the callbacks it has queued.
\<close>

record sys = scanner +
  ip_range_arg :: string
  progress_callback :: bool
  pc :: cpc
  hosts_var :: "ipv4 list"
  devices :: "device list"
  workers :: "worker list"
  events :: "event list"

definition new_sys :: sys where
  "new_sys =
     \<lparr>is_scanning = False, hosts_scanned = 0, total_hosts = 0, partial_results = [],
      ip_range_arg = [], progress_callback = False, pc = No_thread, hosts_var = [],
      devices = [], workers = [], events = []\<rparr>"

text \<open>
  \<^verbatim>\<open>sorted(devices, key=lambda x: ipaddress.IPv4Address(x['ip']))\<close>: the key function
  may raise; the sort is stable.
\<close>

definition ip_key :: "device \<Rightarrow> ipv4" where
  "ip_key d = (case IPv4Address (ip d) of Inl e \<Rightarrow> 0 | Inr k \<Rightarrow> k)"

definition sort_devices :: "device list \<Rightarrow> py_error + device list" where
  "sort_devices ds =
     (case traverse (\<lambda>d. IPv4Address (ip d)) ds of
        Inl e \<Rightarrow> Inl e
      | Inr ks \<Rightarrow> Inr (sort_key ip_key ds))"

definition stop_scan :: "'a scanner_scheme \<Rightarrow> 'a scanner_scheme" where
  "stop_scan s = s\<lparr>is_scanning := False\<rparr>"

definition get_partial_results :: "'a scanner_scheme \<Rightarrow> py_error + device list" where
  "get_partial_results s = sort_devices (partial_results s)"

text \<open>
  \<^verbatim>\<open>scan_network\<close>, lines 196 and 197, seen from one scan. With the flag set the
  call does nothing. With the flag clear it starts a thread; when the thread of the
  earlier call has ended, the new thread takes its place in this record. A call with the
  flag clear while the earlier thread is still alive starts a second thread beside it:
  that is a step of the scanner with several threads (\<open>engine\<close> below) and has no
  successor here.
\<close>

definition scan_network_alone :: "string \<Rightarrow> bool \<Rightarrow> sys \<Rightarrow> sys option" where
  "scan_network_alone r p s =
     (if \<not> is_scanning s then
        (if pc s = No_thread then
           Some (s\<lparr>ip_range_arg := r, progress_callback := p, pc := L152, hosts_var := [],
                   devices := [], workers := [], events := []\<rparr>)
         else None)
      else Some s)"

text \<open>The argument of the error callback, line 194.\<close>

definition failed_message :: "world \<Rightarrow> py_error \<Rightarrow> string" where
  "failed_message w e = ''Scan failed: '' @ str_error (lib_str w) e"

text \<open>One step of \<^verbatim>\<open>do_scan\<close>; \<open>None\<close> when the thread is blocked or has ended.\<close>

definition coord_step :: "world \<Rightarrow> sys \<Rightarrow> sys option" where
  "coord_step w s =
     (case pc s of
        No_thread \<Rightarrow> None
      | L152 \<Rightarrow> Some (s\<lparr>is_scanning := True, pc := L153\<rparr>)
      | L153 \<Rightarrow> Some (s\<lparr>partial_results := [], pc := L154\<rparr>)
      | L154 \<Rightarrow> Some (s\<lparr>hosts_scanned := 0, devices := [], pc := L159\<rparr>)
      | L159 \<Rightarrow>
          (case parse_ip_range (ip_range_arg s) of
             Inl e \<Rightarrow> Some (s\<lparr>pc := L193 e\<rparr>)
           | Inr hs \<Rightarrow> Some (s\<lparr>hosts_var := hs, pc := L160\<rparr>))
      | L160 \<Rightarrow> Some (s\<lparr>total_hosts := length (hosts_var s), pc := L163\<rparr>)
      | L163 \<Rightarrow>
          Some (s\<lparr>events := (if progress_callback s
                               then events s @ [Progress 0 (total_hosts s)] else events s),
                  pc := L_submit (hosts_var s)\<rparr>)
      | L_submit [] \<Rightarrow> Some (s\<lparr>pc := L_wait (length (workers s))\<rparr>)
      | L_submit (h # hs) \<Rightarrow>
          (if \<not> is_scanning s then Some (s\<lparr>pc := L_wait (length (workers s))\<rparr>)
           else Some (s\<lparr>workers := workers s @
                                      [\<lparr>w_ip = str_ipv4 h, w_pc = W_pending,
                                        alive = False, open_ports = []\<rparr>],
                        pc := L_submit hs\<rparr>))
      | L_wait 0 \<Rightarrow> Some (s\<lparr>pc := L_exit\<rparr>)
      | L_wait (Suc n) \<Rightarrow>
          (if \<not> is_scanning s then
             Some (s\<lparr>workers := map (\<lambda>t. if w_pc t = W_pending then t\<lparr>w_pc := W_cancelled\<rparr>
                                           else t) (workers s),
                     pc := L_exit\<rparr>)
           else Some (s\<lparr>pc := L_wait n\<rparr>))
      | L_exit \<Rightarrow> (if list_all worker_done (workers s) then Some (s\<lparr>pc := L187\<rparr>) else None)
      | L187 \<Rightarrow> (if is_scanning s then Some (s\<lparr>pc := L188\<rparr>) else Some (s\<lparr>pc := No_thread\<rparr>))
      | L188 \<Rightarrow> Some (s\<lparr>is_scanning := False, pc := L189\<rparr>)
      | L189 \<Rightarrow>
          (case sort_devices (devices s) of
             Inl e \<Rightarrow> Some (s\<lparr>pc := L193 e\<rparr>)
           | Inr ds \<Rightarrow> Some (s\<lparr>pc := L190 ds\<rparr>))
      | L190 ds \<Rightarrow> Some (s\<lparr>events := events s @ [Complete ds], pc := No_thread\<rparr>)
      | L_unwind e \<Rightarrow>
          (if list_all worker_done (workers s) then Some (s\<lparr>pc := L193 e\<rparr>) else None)
      | L193 e \<Rightarrow> Some (s\<lparr>is_scanning := False, pc := L194 e\<rparr>)
      | L194 e \<Rightarrow>
          Some (s\<lparr>events := events s @ [Failed (failed_message w e)], pc := No_thread\<rparr>))"

text \<open>
  One step of the task \<open>i\<close>. A pending task starts when fewer than 100 tasks run
  (\<^verbatim>\<open>max_workers=100\<close>).
\<close>

definition set_worker :: "nat \<Rightarrow> worker \<Rightarrow> sys \<Rightarrow> sys" where
  "set_worker i t s = s\<lparr>workers := (workers s)[i := t]\<rparr>"

definition work_step :: "world \<Rightarrow> nat \<Rightarrow> sys \<Rightarrow> sys option" where
  "work_step w i s =
     (if i \<ge> length (workers s) then None
      else let t = workers s ! i in
        (case w_pc t of
           W_pending \<Rightarrow>
             (if length (filter worker_running (workers s)) < 100
              then Some (set_worker i (t\<lparr>w_pc := W_entry\<rparr>) s) else None)
         | W_entry \<Rightarrow>
             (if \<not> is_scanning s then Some (set_worker i (t\<lparr>w_pc := W_returned\<rparr>) s)
              else Some (set_worker i (t\<lparr>w_pc := W_ports common_ports\<rparr>) s))
         | W_ports (port # rest) \<Rightarrow>
             (if \<not> is_scanning s then Some (set_worker i (t\<lparr>w_pc := W_returned\<rparr>) s)
              else (case is_port_open w (w_ip t) port of
                      Inl e \<Rightarrow> Some (set_worker i (t\<lparr>w_pc := W_raised e\<rparr>) s)
                    | Inr b \<Rightarrow>
                        if b then
                          Some (set_worker i (t\<lparr>alive := True,
                                                 open_ports := open_ports t @ [port],
                                                 w_pc := W_ports rest\<rparr>) s)
                        else Some (set_worker i (t\<lparr>w_pc := W_ports rest\<rparr>) s)))
         | W_ports [] \<Rightarrow>
             (if \<not> alive t \<and> is_scanning s then
                (case liveness_fallback w (w_ip t) of
                   Inl e \<Rightarrow> Some (set_worker i (t\<lparr>w_pc := W_raised e\<rparr>) s)
                 | Inr b \<Rightarrow> Some (set_worker i (t\<lparr>alive := b, w_pc := W_check\<rparr>) s))
              else Some (set_worker i (t\<lparr>w_pc := W_check\<rparr>) s))
         | W_check \<Rightarrow>
             (if alive t \<and> is_scanning s then Some (set_worker i (t\<lparr>w_pc := W_append\<rparr>) s)
              else Some (set_worker i (t\<lparr>w_pc := W_count\<rparr>) s))
         | W_append \<Rightarrow>
             (case resolve_hostname w (w_ip t) of
                Inl e \<Rightarrow> Some (set_worker i (t\<lparr>w_pc := W_raised e\<rparr>) s)
              | Inr name \<Rightarrow>
                  Some (set_worker i (t\<lparr>w_pc := W_count\<rparr>)
                         (s\<lparr>partial_results :=
                               partial_results s @ [make_device name (w_ip t) (open_ports t)],
                             devices := devices s @ [make_device name (w_ip t) (open_ports t)]\<rparr>)))
         | W_count \<Rightarrow>
             Some (set_worker i (t\<lparr>w_pc := W_finished\<rparr>)
                    (s\<lparr>hosts_scanned := hosts_scanned s + 1,
                       events := (if progress_callback s
                                  then events s @ [Progress (hosts_scanned s + 1) (total_hosts s)]
                                  else events s)\<rparr>))
         | W_cancelled \<Rightarrow> None
         | W_returned \<Rightarrow> None
         | W_finished \<Rightarrow> None
         | W_raised e \<Rightarrow> None))"

text \<open>
  What can happen next to one scan: a call of \<^verbatim>\<open>scan_network\<close> or of
  \<^verbatim>\<open>stop_scan\<close> from the user interface, a step of the scan thread, a step of a task,
  or \<^verbatim>\<open>executor.submit\<close> raising.
\<close>

datatype action =
    Start string bool
  | Stop
  | Coord
  | Work nat
  | Submit_raises py_error

fun step :: "world \<Rightarrow> action \<Rightarrow> sys \<Rightarrow> sys option" where
  "step w (Start r p) s = scan_network_alone r p s"
| "step w Stop s = Some (stop_scan s)"
| "step w Coord s = coord_step w s"
| "step w (Work i) s = work_step w i s"
| "step w (Submit_raises e) s =
     (case pc s of
        L_submit (h # hs) \<Rightarrow> (if is_scanning s then Some (s\<lparr>pc := L_unwind e\<rparr>) else None)
      | _ \<Rightarrow> None)"

fun run :: "world \<Rightarrow> action list \<Rightarrow> sys \<Rightarrow> sys option" where
  "run w [] s = Some s"
| "run w (a # as) s = (case step w a s of None \<Rightarrow> None | Some s' \<Rightarrow> run w as s')"

inductive reachable :: "world \<Rightarrow> sys \<Rightarrow> bool" for w :: world where
  init: "reachable w new_sys"
| next_state: "reachable w s \<Longrightarrow> step w a s = Some s' \<Longrightarrow> reachable w s'"

subsection \<open>The scanner with several scan threads\<close>

text \<open>
  \<^verbatim>\<open>scan_network\<close> tests nothing but the flag (line 196): a call made while the flag
  is clear starts a thread also when the thread of an earlier call is still alive, before
  that thread has run line 152 or after \<^verbatim>\<open>stop_scan\<close>. The engine is the scanner
  with every scan thread started so far. A thread is kept as a \<open>sys\<close> of which the
  thread's own part is used (arguments, program counter, local variables, tasks, the
  callbacks it has queued); the four fields of the scanner are shared: a step of the
  thread \<open>k\<close> or of one of its tasks reads them from the engine (\<open>view\<close>) and writes
  them back (\<open>commit\<close>).
\<close>

record engine = scanner +
  threads :: "sys list"

definition new_engine :: engine where
  "new_engine =
     \<lparr>is_scanning = False, hosts_scanned = 0, total_hosts = 0, partial_results = [],
      threads = []\<rparr>"

definition new_thread :: "string \<Rightarrow> bool \<Rightarrow> sys" where
  "new_thread r p = new_sys\<lparr>ip_range_arg := r, progress_callback := p, pc := L152\<rparr>"

definition scan_network :: "string \<Rightarrow> bool \<Rightarrow> engine \<Rightarrow> engine" where
  "scan_network r p e =
     (if \<not> is_scanning e then e\<lparr>threads := threads e @ [new_thread r p]\<rparr> else e)"

definition view :: "engine \<Rightarrow> nat \<Rightarrow> sys" where
  "view e k =
     (threads e ! k)\<lparr>is_scanning := is_scanning e, hosts_scanned := hosts_scanned e,
                      total_hosts := total_hosts e, partial_results := partial_results e\<rparr>"

definition commit :: "nat \<Rightarrow> sys \<Rightarrow> engine \<Rightarrow> engine" where
  "commit k s e =
     e\<lparr>is_scanning := is_scanning s, hosts_scanned := hosts_scanned s,
       total_hosts := total_hosts s, partial_results := partial_results s,
       threads := (threads e)[k := s]\<rparr>"

text \<open>
  A step of the engine: a call of \<^verbatim>\<open>scan_network\<close> or of \<^verbatim>\<open>stop_scan\<close>, or a
  step of the thread \<open>k\<close>, of one of its tasks, or of its \<^verbatim>\<open>executor.submit\<close>
  raising.
\<close>

datatype engine_action =
    E_start string bool
  | E_stop
  | E_thread nat action

fun thread_action :: "action \<Rightarrow> bool" where
  "thread_action (Start r p) = False"
| "thread_action Stop = False"
| "thread_action a = True"

fun engine_step :: "world \<Rightarrow> engine_action \<Rightarrow> engine \<Rightarrow> engine option" where
  "engine_step w (E_start r p) e = Some (scan_network r p e)"
| "engine_step w E_stop e = Some (stop_scan e)"
| "engine_step w (E_thread k a) e =
     (if k < length (threads e) \<and> thread_action a
      then map_option (\<lambda>s. commit k s e) (step w a (view e k))
      else None)"

fun engine_run :: "world \<Rightarrow> engine_action list \<Rightarrow> engine \<Rightarrow> engine option" where
  "engine_run w [] e = Some e"
| "engine_run w (a # as) e =
     (case engine_step w a e of None \<Rightarrow> None | Some e' \<Rightarrow> engine_run w as e')"

subsection \<open>The helper for the local network\<close>

text \<open>
  \<^verbatim>\<open>get_local_ip_range\<close> is defined in the class body with no parameter and no
  \<^verbatim>\<open>staticmethod\<close> decorator: it is a function of the class, called on the class
  with no argument. A call takes the list of positional arguments and raises TypeError
  when there is one.
\<close>

definition str_network :: "ipv4network \<Rightarrow> string" where
  "str_network net = str_ipv4 (network_address net) @ ''/'' @ str_nat (prefixlen net)"

definition get_local_ip_range :: "world \<Rightarrow> scanner list \<Rightarrow> py_error + string" where
  "get_local_ip_range w args =
     (if args \<noteq> [] then Inl Type_error
      else (case gethostbyname w (gethostname w) of
              Inl e \<Rightarrow> Inl e
            | Inr local_ip \<Rightarrow>
                (case IPv4Network (local_ip @ ''/24'') of
                   Inl e \<Rightarrow> Inl e
                 | Inr network \<Rightarrow> Inr (str_network network))))"

subsection \<open>Two worlds for concrete runs\<close>

text \<open>In \<open>quiet_world\<close> nothing answers; in \<open>ssh_world\<close> every host accepts on port 22.\<close>

definition quiet_world :: world where
  "quiet_world =
     \<lparr>connect_ex = (\<lambda>a p t. Inr 111), ping = (\<lambda>a. Inr False),
      gethostbyaddr = (\<lambda>a. Inl (OS_error ''unknown host'')),
      gethostname = ''localhost'', gethostbyname = (\<lambda>h. Inr ''127.0.0.1''),
      lib_str = (\<lambda>e. ''error'')\<rparr>"

definition ssh_world :: world where
  "ssh_world =
     \<lparr>connect_ex = (\<lambda>a p t. if p = 22 then Inr 0 else Inr 111), ping = (\<lambda>a. Inr False),
      gethostbyaddr = (\<lambda>a. Inl (OS_error ''unknown host'')),
      gethostname = ''localhost'', gethostbyname = (\<lambda>h. Inr ''127.0.0.1''),
      lib_str = (\<lambda>e. ''error'')\<rparr>"

section \<open>Expressions built from numbers\<close>

text \<open>The dotted forms of three and of four numbers.\<close>

definition quad :: "nat \<Rightarrow> nat \<Rightarrow> nat \<Rightarrow> nat \<Rightarrow> string" where
  "quad a b c d = str_nat a @ ''.'' @ str_nat b @ ''.'' @ str_nat c @ ''.'' @ str_nat d"

definition triple :: "nat \<Rightarrow> nat \<Rightarrow> nat \<Rightarrow> string" where
  "triple a b c = str_nat a @ ''.'' @ str_nat b @ ''.'' @ str_nat c"

section \<open>Phases, events and invariants\<close>

fun is_complete :: "event \<Rightarrow> bool" where
  "is_complete (Complete ds) = True" | "is_complete _ = False"
fun is_failed :: "event \<Rightarrow> bool" where
  "is_failed (Failed m) = True" | "is_failed _ = False"
fun is_progress :: "event \<Rightarrow> bool" where
  "is_progress (Progress n m) = True" | "is_progress _ = False"

fun progress_values :: "event list \<Rightarrow> nat list" where
  "progress_values [] = []"
| "progress_values (Progress n m # evs) = n # progress_values evs"
| "progress_values (ev # evs) = progress_values evs"

fun before_parse :: "cpc \<Rightarrow> bool" where
  "before_parse L152 = True" | "before_parse L153 = True" | "before_parse L154 = True" | "before_parse L159 = True"
| "before_parse _ = False"

fun before_submit :: "cpc \<Rightarrow> bool" where
  "before_submit L152 = True" | "before_submit L153 = True" | "before_submit L154 = True" | "before_submit L159 = True"
| "before_submit L160 = True" | "before_submit L163 = True"
| "before_submit _ = False"

fun resetting :: "cpc \<Rightarrow> bool" where
  "resetting L152 = True" | "resetting L153 = True" | "resetting L154 = True" | "resetting _ = False"

fun after_parse :: "cpc \<Rightarrow> bool" where
  "after_parse L160 = True" | "after_parse L163 = True" | "after_parse (L_submit hs) = True" | "after_parse (L_wait n) = True"
| "after_parse L_exit = True" | "after_parse L187 = True" | "after_parse L188 = True" | "after_parse L189 = True"
| "after_parse (L190 ds) = True" | "after_parse (L_unwind e) = True"
| "after_parse _ = False"

fun in_pool :: "cpc \<Rightarrow> bool" where
  "in_pool (L_submit hs) = True" | "in_pool (L_wait n) = True" | "in_pool L_exit = True" | "in_pool L187 = True"
| "in_pool _ = False"

fun flag_clear_pc :: "cpc \<Rightarrow> bool" where
  "flag_clear_pc No_thread = True" | "flag_clear_pc L189 = True" | "flag_clear_pc (L190 ds) = True" | "flag_clear_pc (L194 e) = True"
| "flag_clear_pc _ = False"

fun finishing :: "cpc \<Rightarrow> bool" where
  "finishing L188 = True" | "finishing L189 = True" | "finishing (L190 ds) = True" | "finishing _ = False"


definition finished :: "worker \<Rightarrow> bool" where
  "finished t = (w_pc t = W_finished)"

definition dropped :: "worker \<Rightarrow> bool" where
  "dropped t = (w_pc t = W_returned \<or> w_pc t = W_cancelled)"

definition raised :: "worker \<Rightarrow> bool" where
  "raised t = (\<exists>e. w_pc t = W_raised e)"

definition no_raise :: "sys \<Rightarrow> bool" where
  "no_raise s = list_all (\<lambda>t. \<not> raised t) (workers s)"

definition inv_events :: "world \<Rightarrow> sys \<Rightarrow> bool" where
  "inv_events w s =
     ((pc s \<noteq> No_thread \<longrightarrow> list_all is_progress (events s)) \<and>
      (flag_clear_pc (pc s) \<longrightarrow> \<not> is_scanning s) \<and>
      (list_ex is_failed (events s) \<longrightarrow> \<not> list_ex is_complete (events s)) \<and>
      (\<forall>m. Failed m \<in> set (events s) \<longrightarrow> (\<exists>e. m = failed_message w e)))"

definition inv_parse :: "sys \<Rightarrow> bool" where
  "inv_parse s =
     ((before_submit (pc s) \<longrightarrow> workers s = []) \<and>
      (workers s \<noteq> [] \<or> after_parse (pc s) \<longrightarrow> parse_ip_range (ip_range_arg s) = Inr (hosts_var s)))"

definition inv_count :: "sys \<Rightarrow> bool" where
  "inv_count s =
     ((\<not> resetting (pc s) \<longrightarrow> hosts_scanned s = length (filter finished (workers s))) \<and>
      (progress_values (events s) = [] \<or>
         \<not> resetting (pc s) \<and> progress_values (events s) = [0..<Suc (hosts_scanned s)]) \<and>
      (progress_callback s \<and> (workers s \<noteq> [] \<or> in_pool (pc s) \<or> finishing (pc s) \<or> list_ex is_complete (events s))
         \<longrightarrow> progress_values (events s) \<noteq> []) \<and>
      (before_submit (pc s) \<or> \<not> progress_callback s \<longrightarrow> progress_values (events s) = []) \<and>
      (before_submit (pc s) \<and> \<not> resetting (pc s) \<longrightarrow> hosts_scanned s = 0))"

definition inv_total :: "sys \<Rightarrow> bool" where
  "inv_total s =
     (in_pool (pc s) \<or> finishing (pc s) \<or> pc s = L163 \<or> list_ex is_complete (events s)
        \<longrightarrow> total_hosts s = length (hosts_var s))"

definition inv_submit :: "sys \<Rightarrow> bool" where
  "inv_submit s =
     ((\<forall>hs. pc s = L_submit hs \<longrightarrow> length (workers s) + length hs = length (hosts_var s)) \<and>
      (is_scanning s \<and> in_pool (pc s) \<and> (\<forall>hs. pc s \<noteq> L_submit hs)
         \<longrightarrow> length (workers s) = length (hosts_var s)) \<and>
      (is_scanning s \<and> in_pool (pc s) \<longrightarrow> list_all (\<lambda>t. \<not> dropped t) (workers s)))"

definition inv_done :: "sys \<Rightarrow> bool" where
  "inv_done s =
     ((pc s = L187 \<longrightarrow> list_all worker_done (workers s)) \<and>
      (finishing (pc s) \<or> list_ex is_complete (events s) \<longrightarrow>
         list_all finished (workers s) \<and> length (workers s) = length (hosts_var s)))"

text \<open>
  What a task has recorded is determined by the answers of the network: the open ports
  are the ports of the probe list tried so far that answered, in that order.
\<close>

definition port_answers :: "world \<Rightarrow> string \<Rightarrow> nat list \<Rightarrow> nat list" where
  "port_answers w a ps = filter (\<lambda>p. connect_ex w a p 500 = Inr 0) ps"

definition expected_device :: "world \<Rightarrow> string \<Rightarrow> device" where
  "expected_device w a =
     make_device (case gethostbyaddr w a of Inl e \<Rightarrow> a | Inr n \<Rightarrow> n) a
       (port_answers w a common_ports)"

definition worker_ok :: "world \<Rightarrow> worker \<Rightarrow> bool" where
  "worker_ok w t =
     (case w_pc t of
        W_pending \<Rightarrow> open_ports t = []
      | W_entry \<Rightarrow> open_ports t = []
      | W_ports rest \<Rightarrow>
          (\<exists>tried. common_ports = tried @ rest \<and> open_ports t = port_answers w (w_ip t) tried)
      | W_check \<Rightarrow> open_ports t = port_answers w (w_ip t) common_ports
      | W_append \<Rightarrow> open_ports t = port_answers w (w_ip t) common_ports
      | _ \<Rightarrow> True)"

definition inv_ports :: "world \<Rightarrow> sys \<Rightarrow> bool" where
  "inv_ports w s =
     (list_all (worker_ok w) (workers s) \<and>
      list_all (\<lambda>d. d = expected_device w (ip d)) (devices s) \<and>
      list_all (\<lambda>d. d = expected_device w (ip d)) (partial_results s))"

definition invs :: "world \<Rightarrow> sys \<Rightarrow> bool" where
  "invs w s =
     (inv_events w s \<and> inv_parse s \<and> no_raise s \<and> inv_count s \<and> inv_total s \<and>
      inv_submit s \<and> inv_done s \<and> inv_ports w s)"

subsection \<open>Concrete runs\<close>


definition probe_state :: sys where
  "probe_state =
     \<lparr>is_scanning = True, hosts_scanned = 0, total_hosts = 1, partial_results = [],
      ip_range_arg = ''10.0.0.1'', progress_callback = False, pc = L_submit [],
      hosts_var = [167772161], devices = [],
      workers = [\<lparr>w_ip = ''10.0.0.1'', w_pc = W_append, alive = True, open_ports = [22]\<rparr>],
      events = []\<rparr>"


definition ssh_device :: device where
  "ssh_device = \<lparr>hostname = ''10.0.0.1'', ip = ''10.0.0.1'', ports = ''22''\<rparr>"

definition probe_stopped_state :: sys where
  "probe_stopped_state =
     \<lparr>is_scanning = False, hosts_scanned = 0, total_hosts = 1,
      partial_results = [ssh_device],
      ip_range_arg = ''10.0.0.1'', progress_callback = False, pc = L_submit [],
      hosts_var = [167772161], devices = [ssh_device],
      workers = [\<lparr>w_ip = ''10.0.0.1'', w_pc = W_count, alive = True, open_ports = [22]\<rparr>],
      events = []\<rparr>"



definition failing_trace :: "action list" where
  "failing_trace = [Start ''bad'' True, Coord, Coord, Coord, Coord, Coord, Coord]"

definition failing_state :: sys where
  "failing_state =
     \<lparr>is_scanning = False, hosts_scanned = 0, total_hosts = 0, partial_results = [],
      ip_range_arg = ''bad'', progress_callback = True, pc = No_thread,
      hosts_var = [], devices = [], workers = [],
      events = [Failed ''Scan failed: error'']\<rparr>"

definition mixed_world :: world where
  "mixed_world =
     \<lparr>connect_ex = (\<lambda>a p t. if a = ''10.0.0.1''
                              then (if p = 443 \<or> p = 53 then Inr 0
                                    else if p = 80 then Inl (OS_error ''timed out'')
                                    else Inr 111)
                              else Inr 111),
      ping = (\<lambda>a. Inl (OS_error ''not permitted'')),
      gethostbyaddr = (\<lambda>a. Inl (OS_error ''unknown host'')),
      gethostname = ''localhost'', gethostbyname = (\<lambda>h. Inr ''127.0.0.1''),
      lib_str = (\<lambda>e. ''error'')\<rparr>"

definition mixed_trace_submit :: "action list" where
  "mixed_trace_submit =
     [Start ''10.0.0.1-2'' True, Coord, Coord, Coord, Coord, Coord, Coord, Coord, Coord, Coord]"

definition mixed_trace_first :: "action list" where
  "mixed_trace_first =
     [Work 0, Work 0, Work 0, Work 0, Work 0, Work 0, Work 0, Work 0, Work 0, Work 0,
      Work 0, Work 0, Work 0, Work 0, Work 0, Work 0, Work 0]"

definition mixed_trace_second :: "action list" where
  "mixed_trace_second =
     [Work 1, Work 1, Work 1, Work 1, Work 1, Work 1, Work 1, Work 1, Work 1, Work 1,
      Work 1, Work 1, Work 1, Work 1, Work 1, Work 1,
      Coord, Coord, Coord, Coord, Coord, Coord, Coord, Coord]"

definition mixed_device :: device where
  "mixed_device = \<lparr>hostname = ''10.0.0.1'', ip = ''10.0.0.1'', ports = ''443, 53''\<rparr>"

definition mixed_submitted :: sys where
  "mixed_submitted =
     \<lparr>is_scanning = True, hosts_scanned = 0, total_hosts = 2, partial_results = [],
      ip_range_arg = ''10.0.0.1-2'', progress_callback = True, pc = L_wait 2,
      hosts_var = [167772161, 167772162], devices = [],
      workers = [\<lparr>w_ip = ''10.0.0.1'', w_pc = W_pending, alive = False, open_ports = []\<rparr>,
                 \<lparr>w_ip = ''10.0.0.2'', w_pc = W_pending, alive = False, open_ports = []\<rparr>],
      events = [Progress 0 2]\<rparr>"

definition mixed_half :: sys where
  "mixed_half =
     \<lparr>is_scanning = True, hosts_scanned = 1, total_hosts = 2, partial_results = [mixed_device],
      ip_range_arg = ''10.0.0.1-2'', progress_callback = True, pc = L_wait 2,
      hosts_var = [167772161, 167772162], devices = [mixed_device],
      workers = [\<lparr>w_ip = ''10.0.0.1'', w_pc = W_finished, alive = True, open_ports = [443, 53]\<rparr>,
                 \<lparr>w_ip = ''10.0.0.2'', w_pc = W_pending, alive = False, open_ports = []\<rparr>],
      events = [Progress 0 2, Progress 1 2]\<rparr>"

definition mixed_state :: sys where
  "mixed_state =
     \<lparr>is_scanning = False, hosts_scanned = 2, total_hosts = 2, partial_results = [mixed_device],
      ip_range_arg = ''10.0.0.1-2'', progress_callback = True, pc = No_thread,
      hosts_var = [167772161, 167772162], devices = [mixed_device],
      workers = [\<lparr>w_ip = ''10.0.0.1'', w_pc = W_finished, alive = True, open_ports = [443, 53]\<rparr>,
                 \<lparr>w_ip = ''10.0.0.2'', w_pc = W_finished, alive = False, open_ports = []\<rparr>],
      events = [Progress 0 2, Progress 1 2, Progress 2 2, Complete [mixed_device]]\<rparr>"

text \<open>A world in which the host name resolves to 192.168.1.37.\<close>

definition home_world :: world where
  "home_world = quiet_world\<lparr>gethostbyname := (\<lambda>h. Inr ''192.168.1.37'')\<rparr>"

section \<open>Properties\<close>

lemma split_on_not_Nil: "split_on c s \<noteq> []"
  by (induction s) (auto split: list.splits)

subsection \<open>Digits and decimal numerals\<close>

lemma below_ten:
  "n < 10 \<Longrightarrow> n = (9::nat) \<or> n = 8 \<or> n = 7 \<or> n = 6 \<or> n = 5 \<or> n = 4 \<or> n = 3 \<or> n = 2 \<or> n = 1 \<or> n = 0"
  by arith

lemma digit_val_digit_char: "n < 10 \<Longrightarrow> digit_val (digit_char n) = n"
  by (drule below_ten) (elim disjE; simp add: digit_val_def digit_char_def)

lemma digit_char_in: "n < 10 \<Longrightarrow> digit_char n \<in> set ''0123456789''"
  by (drule below_ten) (elim disjE; simp add: digit_char_def)

lemma is_ascii_digit_digit_char: "n < 10 \<Longrightarrow> is_ascii_digit (digit_char n)"
  by (simp add: is_ascii_digit_def digit_char_in del: set_simps)

lemma digit_char_zero: "n < 10 \<Longrightarrow> digit_char n = CHR ''0'' \<longleftrightarrow> n = 0"
  by (drule below_ten) (elim disjE; simp add: digit_char_def)

lemma digit_not_special:
  "is_ascii_digit c \<Longrightarrow> c \<noteq> CHR ''.'' \<and> c \<noteq> CHR ''-'' \<and> c \<noteq> CHR ''/'' \<and> c \<noteq> CHR ''_'' \<and> c \<noteq> CHR ''+'' \<and> \<not> is_space c"
  by (auto simp: is_ascii_digit_def is_space_def)

lemma str_nat_digits: "list_all is_ascii_digit (str_nat n)"
proof (induction n rule: str_nat.induct)
  case (1 n)
  show ?case
  proof (cases "n < 10")
    case True
    then show ?thesis by (simp add: str_nat.simps [of n] is_ascii_digit_digit_char)
  next
    case False
    with 1 show ?thesis by (simp add: str_nat.simps [of n] is_ascii_digit_digit_char)
  qed
qed

lemma str_nat_not_Nil: "str_nat n \<noteq> []"
  by (subst str_nat.simps) simp

lemma decimal_snoc: "decimal (s @ [c]) = 10 * decimal s + digit_val c"
  by (simp add: decimal_def)

lemma decimal_str_nat: "decimal (str_nat n) = n"
proof (induction n rule: str_nat.induct)
  case (1 n)
  show ?case
  proof (cases "n < 10")
    case True
    then show ?thesis by (simp add: str_nat.simps [of n] decimal_def digit_val_digit_char)
  next
    case False
    with 1 show ?thesis by (simp add: str_nat.simps [of n] decimal_snoc digit_val_digit_char)
  qed
qed

lemma hd_str_nat: "hd (str_nat n) = CHR ''0'' \<longleftrightarrow> n = 0"
proof (induction n rule: str_nat.induct)
  case (1 n)
  show ?case
  proof (cases "n < 10")
    case True
    then show ?thesis by (simp add: str_nat.simps [of n] digit_char_zero)
  next
    case False
    then have "n div 10 \<noteq> 0" by simp
    with False 1 show ?thesis by (simp add: str_nat.simps [of n] hd_append str_nat_not_Nil)
  qed
qed

lemma str_nat_zero: "str_nat 0 = ''0''"
  by (simp add: str_nat.simps digit_char_def)

lemma str_nat_eq_zero: "str_nat n = ''0'' \<longleftrightarrow> n = 0"
  using hd_str_nat [of n] str_nat_zero by (cases "n = 0") auto

lemma length_str_nat: "n < 1000 \<Longrightarrow> length (str_nat n) \<le> 3"
  by (simp add: str_nat.simps [of n] str_nat.simps [of "n div 10"] str_nat.simps [of "n div 10 div 10"])

lemma parse_octet_str_nat: "n \<le> 255 \<Longrightarrow> parse_octet (str_nat n) = Inr n"
proof -
  assume n: "n \<le> 255"
  then have "length (str_nat n) \<le> 3" by (intro length_str_nat) simp
  with n show ?thesis
    by (auto simp: parse_octet_def str_nat_not_Nil str_nat_digits hd_str_nat
        str_nat_eq_zero decimal_str_nat)
qed

lemma parse_octet_str_nat_large: "255 < n \<Longrightarrow> isl (parse_octet (str_nat n))"
  by (simp add: parse_octet_def decimal_str_nat)

lemma parse_octet_bound: "parse_octet s = Inr v \<Longrightarrow> v \<le> 255"
  by (auto simp: parse_octet_def split: if_splits)

subsection \<open>Splitting and joining\<close>

lemma split_on_no_sep: "c \<notin> set s \<Longrightarrow> split_on c s = [s]"
  by (induction s) auto

lemma split_on_append: "c \<notin> set s \<Longrightarrow> split_on c (s @ c # t) = s # split_on c t"
  by (induction s) auto

lemma split_on_parts: "p \<in> set (split_on c s) \<Longrightarrow> c \<notin> set p"
  by (induction s arbitrary: p) (auto split: if_splits list.splits)

lemma split_on_join:
  "ps \<noteq> [] \<Longrightarrow> (\<And>p. p \<in> set ps \<Longrightarrow> c \<notin> set p) \<Longrightarrow> split_on c (join [c] ps) = ps"
proof (induction ps)
  case Nil
  then show ?case by simp
next
  case (Cons p ps)
  show ?case
  proof (cases ps)
    case Nil
    with Cons.prems show ?thesis by (simp add: split_on_no_sep)
  next
    case (Cons q qs)
    with Cons.IH Cons.prems have "split_on c (join [c] ps) = ps" by simp
    with Cons Cons.prems show ?thesis by (simp add: split_on_append)
  qed
qed

lemma rsplit1_append: "c \<notin> set t \<Longrightarrow> rsplit1 c (s @ c # t) = [s, t]"
proof -
  assume c: "c \<notin> set t"
  have "takeWhile (\<lambda>x. x \<noteq> c) (rev t @ c # rev s) = rev t"
    using c by (subst takeWhile_append2) auto
  moreover have "dropWhile (\<lambda>x. x \<noteq> c) (rev t @ c # rev s) = c # rev s"
    using c by (subst dropWhile_append2) auto
  ultimately show ?thesis by (simp add: rsplit1_def)
qed

lemma rsplit1_decompose:
  "c \<in> set s \<Longrightarrow> \<exists>b r. rsplit1 c s = [b, r] \<and> s = b @ c # r \<and> c \<notin> set r"
proof -
  assume "c \<in> set s"
  then have "c \<in> set (rev s)" by simp
  then obtain ys zs where "rev s = ys @ c # zs" and "c \<notin> set ys"
    by (meson split_list_first)
  then have "s = rev zs @ c # rev ys" and "c \<notin> set (rev ys)"
    by (simp_all add: rev_swap)
  then show ?thesis using rsplit1_append [of c "rev ys" "rev zs"] by auto
qed

subsection \<open>int of a decimal numeral\<close>

lemma int_body_ok_digits: "s \<noteq> [] \<Longrightarrow> list_all is_ascii_digit s \<Longrightarrow> int_body_ok s"
  by (induction s rule: int_body_ok.induct) (auto simp: digit_not_special)

lemma filter_digits: "list_all is_ascii_digit s \<Longrightarrow> filter (\<lambda>x. x \<noteq> CHR ''_'') s = s"
  by (induction s) (auto simp: digit_not_special)

lemma dropWhile_space_digits: "s \<noteq> [] \<Longrightarrow> list_all is_ascii_digit s \<Longrightarrow> dropWhile is_space s = s"
  by (cases s) (auto simp: digit_not_special)

lemma length_str_nat_le: "0 < k \<Longrightarrow> n < 10 ^ k \<Longrightarrow> length (str_nat n) \<le> k"
proof (induction k arbitrary: n)
  case 0
  then show ?case by simp
next
  case (Suc k)
  show ?case
  proof (cases "n < 10")
    case True
    then show ?thesis by (simp add: str_nat.simps [of n])
  next
    case False
    with Suc.prems have k: "0 < k" by (cases k) auto
    from Suc.prems have "n div 10 < 10 ^ k" by (simp add: less_mult_imp_div_less mult.commute)
    from Suc.IH [OF k this] False show ?thesis by (simp add: str_nat.simps [of n])
  qed
qed

lemma py_int_digits:
  assumes "s \<noteq> []" "list_all is_ascii_digit s"
  shows "py_int s = (if length s > max_str_digits then Inl (Digit_limit s) else Inr (int (decimal s)))"
proof -
  have r: "rev s \<noteq> []" "list_all is_ascii_digit (rev s)" using assms by (simp_all add: list_all_iff)
  have t: "rev (dropWhile is_space (rev (dropWhile is_space s))) = s"
    using assms r by (simp add: dropWhile_space_digits)
  obtain c b where s: "s = c # b" using assms(1) by (cases s) auto
  then have "is_ascii_digit c" using assms(2) by simp
  then have c: "c \<noteq> CHR ''-''" "c \<noteq> CHR ''+''" by (simp_all add: digit_not_special)
  have ok: "int_body_ok s" using assms by (simp add: int_body_ok_digits)
  have f: "filter (\<lambda>x. x \<noteq> CHR ''_'') s = s"
    using assms(2) filter_digits [of s] by simp
  have "py_int s = (case s of
           [] \<Rightarrow> Inl (Invalid_literal s)
         | c # b \<Rightarrow>
             if c = CHR ''-'' then
               (case int_digits s b of Inl e \<Rightarrow> Inl e | Inr n \<Rightarrow> Inr (- n))
             else if c = CHR ''+'' then int_digits s b
             else int_digits s s)"
    by (simp only: py_int_def t Let_def)
  also have "\<dots> = int_digits s s"
    using c by (simp only: s list.case if_False)
  also have "\<dots> = (if length s > max_str_digits then Inl (Digit_limit s) else Inr (int (decimal s)))"
    using ok f by (simp add: int_digits_def)
  finally show ?thesis .
qed

lemma max_str_digits_pos: "0 < max_str_digits"
  by (simp add: max_str_digits_def)

lemma py_int_str_nat: "n < 10 ^ max_str_digits \<Longrightarrow> py_int (str_nat n) = Inr (int n)"
  using length_str_nat_le [OF max_str_digits_pos, of n]
  by (simp add: py_int_digits str_nat_not_Nil str_nat_digits decimal_str_nat)

lemma py_int_str_nat_cases:
  "py_int (str_nat n) = Inr (int n) \<or> (255 < n \<and> isl (py_int (str_nat n)))"
proof (cases "length (str_nat n) > max_str_digits")
  case True
  have "255 < n"
  proof (rule ccontr)
    assume "\<not> 255 < n"
    then have "length (str_nat n) \<le> 3" by (intro length_str_nat) simp
    with True show False by (simp add: max_str_digits_def)
  qed
  with True show ?thesis by (simp add: py_int_digits str_nat_not_Nil str_nat_digits)
next
  case False
  then show ?thesis by (simp add: py_int_digits str_nat_not_Nil str_nat_digits decimal_str_nat)
qed

lemma str_int_nonneg: "0 \<le> i \<Longrightarrow> str_int i = str_nat (nat i)"
  by (simp add: str_int_def)

lemma str_nat_no_special:
  "CHR ''.'' \<notin> set (str_nat n)" "CHR ''-'' \<notin> set (str_nat n)" "CHR ''/'' \<notin> set (str_nat n)"
  using str_nat_digits [of n] by (auto simp: list_all_iff dest: digit_not_special)

lemma split_on_cat: "split_on c (s @ c # t) = split_on c s @ split_on c t"
proof (induction s)
  case Nil
  then show ?case by simp
next
  case (Cons x s)
  then show ?case
    using split_on_not_Nil [of c s] split_on_not_Nil [of c t]
    by (cases "split_on c s") (auto split: list.splits)
qed

lemma split_on_triple: "split_on CHR ''.'' (triple a b c) = [str_nat a, str_nat b, str_nat c]"
  by (simp add: triple_def split_on_append split_on_no_sep str_nat_no_special)

lemma split_on_quad:
  "split_on CHR ''.'' (quad a b c d) = [str_nat a, str_nat b, str_nat c, str_nat d]"
  by (simp add: quad_def split_on_append split_on_no_sep str_nat_no_special)

lemma quad_triple: "quad a b c d = triple a b c @ ''.'' @ str_nat d"
  by (simp add: quad_def triple_def)

lemma quad_no_slash: "CHR ''/'' \<notin> set (quad a b c d)" "CHR ''-'' \<notin> set (quad a b c d)"
  by (simp_all add: quad_def str_nat_no_special)

lemma triple_no_slash: "CHR ''/'' \<notin> set (triple a b c)" "CHR ''-'' \<notin> set (triple a b c)"
  by (simp_all add: triple_def str_nat_no_special)

lemma join_three: "join ''.'' [str_nat a, str_nat b, str_nat c] = triple a b c"
  by (simp add: triple_def)

lemma IPv4Address_quad:
  "a \<le> 255 \<Longrightarrow> b \<le> 255 \<Longrightarrow> c \<le> 255 \<Longrightarrow> d \<le> 255 \<Longrightarrow>
   IPv4Address (quad a b c d) = Inr (from_bytes [a, b, c, d])"
  by (simp add: IPv4Address_def ip_int_from_string_def quad_no_slash split_on_quad
      parse_octet_str_nat)
     (simp add: quad_def)

lemma IPv4Address_quad_large:
  "a \<le> 255 \<Longrightarrow> b \<le> 255 \<Longrightarrow> c \<le> 255 \<Longrightarrow> 255 < d \<Longrightarrow> isl (IPv4Address (quad a b c d))"
  using parse_octet_str_nat_large [of d]
  by (auto simp: IPv4Address_def ip_int_from_string_def quad_no_slash split_on_quad
      parse_octet_str_nat split: sum.splits)

lemma traverse_all:
  "(\<And>x. x \<in> set xs \<Longrightarrow> f x = Inr (g x)) \<Longrightarrow> traverse f xs = Inr (map g xs)"
  by (induction xs) auto

lemma traverse_fails:
  "x \<in> set xs \<Longrightarrow> isl (f x) \<Longrightarrow> isl (traverse f xs)"
  by (induction xs) (auto split: sum.splits)

lemma range_hosts_triple:
  assumes "a \<le> 255" "b \<le> 255" "c \<le> 255" "0 \<le> lo"
  shows "hi \<le> 255 \<Longrightarrow>
           range_hosts (triple a b c) lo hi = Inr (map (\<lambda>i. from_bytes [a, b, c, nat i]) [lo..hi])"
    and "lo \<le> hi \<Longrightarrow> 255 < hi \<Longrightarrow> isl (range_hosts (triple a b c) lo hi)"
proof -
  have ok: "IPv4Address (triple a b c @ ''.'' @ str_int i) = Inr (from_bytes [a, b, c, nat i])"
    if "0 \<le> i" "i \<le> 255" for i
    using that assms IPv4Address_quad [of a b c "nat i"]
    by (simp add: str_int_nonneg quad_triple)
  show "range_hosts (triple a b c) lo hi = Inr (map (\<lambda>i. from_bytes [a, b, c, nat i]) [lo..hi])"
    if "hi \<le> 255"
    unfolding range_hosts_def using that assms(4) by (intro traverse_all ok) auto
  show "isl (range_hosts (triple a b c) lo hi)" if "lo \<le> hi" "255 < hi"
  proof -
    have "isl (IPv4Address (triple a b c @ ''.'' @ str_int hi))"
      using that assms IPv4Address_quad_large [of a b c "nat hi"]
      by (simp add: str_int_nonneg quad_triple)
    moreover have "hi \<in> set [lo..hi]" using that by simp
    ultimately show ?thesis unfolding range_hosts_def by (rule traverse_fails [rotated])
  qed
qed

lemma parse_quad_range_gen:
  "parse_ip_range (quad a b c d @ CHR ''-'' # str_nat n) =
     (case py_int (str_nat d) of
        Inl e \<Rightarrow> Inl e
      | Inr i \<Rightarrow>
          (case py_int (str_nat n) of
             Inl e \<Rightarrow> Inl e
           | Inr j \<Rightarrow> range_hosts (triple a b c) i j))"
proof -
  have r: "rsplit1 CHR ''-'' (quad a b c d @ CHR ''-'' # str_nat n) = [quad a b c d, str_nat n]"
    by (rule rsplit1_append) (rule str_nat_no_special)
  show ?thesis
    by (simp add: parse_ip_range_def quad_no_slash str_nat_no_special r split_on_quad triple_def
        split: sum.splits)
qed

lemma parse_triple_range_gen:
  "parse_ip_range (triple a b c @ CHR ''-'' # str_nat n) =
     (case py_int (str_nat n) of
        Inl e \<Rightarrow> Inl e
      | Inr j \<Rightarrow> range_hosts (triple a b c) 1 j)"
proof -
  have r: "rsplit1 CHR ''-'' (triple a b c @ CHR ''-'' # str_nat n) = [triple a b c, str_nat n]"
    by (rule rsplit1_append) (rule str_nat_no_special)
  show ?thesis
    by (simp add: parse_ip_range_def triple_no_slash str_nat_no_special r split_on_triple)
qed

lemma parse_quad_range:
  "d < 10 ^ max_str_digits \<Longrightarrow> n < 10 ^ max_str_digits \<Longrightarrow>
   parse_ip_range (quad a b c d @ CHR ''-'' # str_nat n) =
     range_hosts (triple a b c) (int d) (int n)"
  by (simp add: parse_quad_range_gen py_int_str_nat)

lemma parse_triple_range:
  "n < 10 ^ max_str_digits \<Longrightarrow>
   parse_ip_range (triple a b c @ CHR ''-'' # str_nat n) = range_hosts (triple a b c) 1 (int n)"
  by (simp add: parse_triple_range_gen py_int_str_nat)

lemma parse_quad_range_large:
  assumes "a \<le> 255" "b \<le> 255" "c \<le> 255" "d \<le> n" "255 < n"
  shows "isl (parse_ip_range (quad a b c d @ CHR ''-'' # str_nat n))"
proof -
  consider "isl (py_int (str_nat d))" | "isl (py_int (str_nat n))"
    | "py_int (str_nat d) = Inr (int d)" "py_int (str_nat n) = Inr (int n)"
    using py_int_str_nat_cases [of d] py_int_str_nat_cases [of n] by auto
  then show ?thesis
  proof cases
    case 1
    then show ?thesis by (auto simp: parse_quad_range_gen split: sum.splits)
  next
    case 2
    then show ?thesis by (auto simp: parse_quad_range_gen split: sum.splits)
  next
    case 3
    with assms range_hosts_triple(2) [of a b c "int d" "int n"] show ?thesis
      by (simp add: parse_quad_range_gen)
  qed
qed

lemma parse_triple_range_large:
  assumes "a \<le> 255" "b \<le> 255" "c \<le> 255" "255 < n"
  shows "isl (parse_ip_range (triple a b c @ CHR ''-'' # str_nat n))"
proof -
  consider "isl (py_int (str_nat n))" | "py_int (str_nat n) = Inr (int n)"
    using py_int_str_nat_cases [of n] by auto
  then show ?thesis
  proof cases
    case 1
    then show ?thesis by (auto simp: parse_triple_range_gen split: sum.splits)
  next
    case 2
    with assms range_hosts_triple(2) [of a b c 1 "int n"] show ?thesis
      by (simp add: parse_triple_range_gen)
  qed
qed

lemma small_numeral: "n \<le> 999 \<Longrightarrow> n < (10::nat) ^ max_str_digits"
proof -
  assume "n \<le> 999"
  also have "(999::nat) < 10 ^ 3" by simp
  also have "(10::nat) ^ 3 \<le> 10 ^ max_str_digits"
    by (rule power_increasing) (simp_all add: max_str_digits_def)
  finally show ?thesis .
qed

text \<open>
  C1, as amended. For a base of four octets \<open>a.b.c.d\<close> with \<open>a\<close>, \<open>b\<close>, \<open>c\<close> at
  most 255 and an end bound \<open>n\<close>, \<^verbatim>\<open>parse_ip_range\<close> returns the addresses
  \<open>a.b.c.d\<close> to \<open>a.b.c.n\<close> in ascending order when \<open>d \<le> n \<le> 255\<close>, raises when
  \<open>d \<le> n\<close> and \<open>n\<close> exceeds 255, and returns the empty list, without raising, when the
  end bound is less than the start (whatever the start is, as long as \<^verbatim>\<open>int\<close> accepts
  it: a numeral of at most 4300 digits). For a base of three octets
  \<open>a.b.c\<close> it returns \<open>a.b.c.1\<close> to \<open>a.b.c.n\<close> when \<open>1 \<le> n \<le> 255\<close>, raises when \<open>n\<close>
  exceeds 255, and returns the empty list when \<open>n\<close> is 0.
\<close>

theorem parse_suffix_range:
  assumes "a \<le> 255" "b \<le> 255" "c \<le> 255"
  shows "(n < d \<and> d < 10 ^ max_str_digits \<longrightarrow>
            parse_ip_range (quad a b c d @ ''-'' @ str_nat n) = Inr []) \<and>
         (d \<le> n \<and> n \<le> 255 \<longrightarrow>
            parse_ip_range (quad a b c d @ ''-'' @ str_nat n)
              = Inr (map (\<lambda>i. from_bytes [a, b, c, nat i]) [int d..int n])) \<and>
         (d \<le> n \<and> 255 < n \<longrightarrow> isl (parse_ip_range (quad a b c d @ ''-'' @ str_nat n))) \<and>
         (n < 1 \<longrightarrow> parse_ip_range (triple a b c @ ''-'' @ str_nat n) = Inr []) \<and>
         (1 \<le> n \<and> n \<le> 255 \<longrightarrow>
            parse_ip_range (triple a b c @ ''-'' @ str_nat n)
              = Inr (map (\<lambda>i. from_bytes [a, b, c, nat i]) [1..int n])) \<and>
         (255 < n \<longrightarrow> isl (parse_ip_range (triple a b c @ ''-'' @ str_nat n)))"
proof (intro conjI impI)
  show "parse_ip_range (quad a b c d @ ''-'' @ str_nat n) = Inr []" if "n < d \<and> d < 10 ^ max_str_digits"
  proof -
    from that have "n < 10 ^ max_str_digits" by simp
    with that show ?thesis by (simp add: parse_quad_range range_hosts_def)
  qed
  show "parse_ip_range (quad a b c d @ ''-'' @ str_nat n)
          = Inr (map (\<lambda>i. from_bytes [a, b, c, nat i]) [int d..int n])" if "d \<le> n \<and> n \<le> 255"
  proof -
    from that have "d \<le> 999" "n \<le> 999" by simp_all
    then have "d < 10 ^ max_str_digits" "n < 10 ^ max_str_digits"
      using small_numeral [of d] small_numeral [of n] by blast+
    with that assms range_hosts_triple(1) [of a b c "int d" "int n"]
    show ?thesis by (simp add: parse_quad_range)
  qed
  show "isl (parse_ip_range (quad a b c d @ ''-'' @ str_nat n))" if "d \<le> n \<and> 255 < n"
    using that assms parse_quad_range_large [of a b c d n] by simp
  show "parse_ip_range (triple a b c @ ''-'' @ str_nat n) = Inr []" if "n < 1"
    using that by (simp add: parse_triple_range small_numeral range_hosts_def)
  show "parse_ip_range (triple a b c @ ''-'' @ str_nat n)
          = Inr (map (\<lambda>i. from_bytes [a, b, c, nat i]) [1..int n])" if "1 \<le> n \<and> n \<le> 255"
    using that assms range_hosts_triple(1) [of a b c 1 "int n"]
    by (simp add: parse_triple_range small_numeral)
  show "isl (parse_ip_range (triple a b c @ ''-'' @ str_nat n))" if "255 < n"
    using that assms parse_triple_range_large [of a b c n] by simp
qed

lemmas numeral_str = str_nat.simps digit_char_def quad_def triple_def

theorem parse_suffix_range_witness:
  "(192::nat) \<le> 255 \<and> (168::nat) \<le> 255 \<and> (1::nat) \<le> 255 \<and> (10::nat) \<le> 20 \<and> (20::nat) \<le> 255 \<and>
   parse_ip_range ''192.168.1.10-20'' =
     Inr (map (\<lambda>i. from_bytes [192, 168, 1, i]) [10, 11, 12, 13, 14, 15, 16, 17, 18, 19, 20]) \<and>
   length (map (\<lambda>i. from_bytes [192, 168, 1, i]) [10, 11, 12, 13, 14, 15, 16, 17, 18, 19, 20::nat]) = 11 \<and>
   map str_ipv4 (map (\<lambda>i. from_bytes [192, 168, 1, i]) [10, 20]) = [''192.168.1.10'', ''192.168.1.20''] \<and>
   parse_ip_range ''192.168.1-5'' = Inr (map (\<lambda>i. from_bytes [192, 168, 1, i]) [1, 2, 3, 4, 5]) \<and>
   isl (parse_ip_range ''192.168.1.10-300'') \<and>
   (20::nat) < 10 ^ max_str_digits \<and> parse_ip_range ''192.168.1.20-10'' = Inr []"
  using parse_suffix_range [of 192 168 1 20 10] parse_suffix_range [of 192 168 1 5 10]
    parse_suffix_range [of 192 168 1 300 10] parse_suffix_range [of 192 168 1 10 20]
    small_numeral [of 20]
  by (simp add: numeral_str upto.simps from_bytes_def str_ipv4_def to_bytes4_def)

text \<open>
  C1 as stated fails: with an end bound less than the start, \<^verbatim>\<open>range(start_ip, end_ip + 1)\<close>
  is empty and \<^verbatim>\<open>parse_ip_range\<close> returns the empty list instead of raising, also when
  the start is not an octet.
\<close>

theorem parse_reversed_range_counterexample:
  "parse_ip_range ''192.168.1.20-10'' = Inr [] \<and> parse_ip_range ''192.168.1.300-10'' = Inr [] \<and>
   parse_ip_range ''192.168.1-0'' = Inr []"
  using parse_quad_range [of 20 10 192 168 1] parse_quad_range [of 300 10 192 168 1]
    parse_triple_range [of 0 192 168 1] small_numeral [of 20] small_numeral [of 10]
    small_numeral [of 0] small_numeral [of 300]
  by (simp add: numeral_str range_hosts_def)

subsection \<open>Addresses as numbers and as bytes\<close>

lemma from_bytes_4: "from_bytes [a, b, c, d] = a * 16777216 + b * 65536 + c * 256 + d"
  by (simp add: from_bytes_def)

lemma from_bytes_less: "a \<le> 255 \<Longrightarrow> b \<le> 255 \<Longrightarrow> c \<le> 255 \<Longrightarrow> d \<le> 255 \<Longrightarrow> from_bytes [a, b, c, d] < 2 ^ 32"
  by (simp add: from_bytes_4)

lemma to_bytes4_nested:
  "to_bytes4 x = [x div 256 div 256 div 256 mod 256, x div 256 div 256 mod 256, x div 256 mod 256, x mod 256]"
  by (simp add: to_bytes4_def div_mult2_eq [symmetric])

lemma from_bytes_to_bytes4: "from_bytes (to_bytes4 x) = x" if "x < 2 ^ 32"
proof -
  define y1 where "y1 = x div 256"
  define y2 where "y2 = y1 div 256"
  define y3 where "y3 = y2 div 256"
  have e0: "x = 256 * y1 + x mod 256" by (simp add: y1_def)
  have e1: "y1 = 256 * y2 + y1 mod 256" by (simp add: y2_def)
  have e2: "y2 = 256 * y3 + y2 mod 256" by (simp add: y3_def)
  have "x div 16777216 < 256" using that by (simp add: less_mult_imp_div_less)
  then have "y3 < 256" by (simp add: y3_def y2_def y1_def div_mult2_eq [symmetric])
  then have e3: "y3 mod 256 = y3" by simp
  have "from_bytes (to_bytes4 x) = 256 * (256 * (256 * y3 + y2 mod 256) + y1 mod 256) + x mod 256"
    by (simp add: to_bytes4_nested from_bytes_def e3 flip: y1_def y2_def y3_def)
  also have "\<dots> = x" using e0 e1 e2 by simp
  finally show ?thesis .
qed

lemma to_bytes4_from_bytes:
  assumes "a \<le> 255" "b \<le> 255" "c \<le> 255" "d \<le> 255"
  shows "to_bytes4 (from_bytes [a, b, c, d]) = [a, b, c, d]"
proof -
  define n1 where "n1 = 256 * a + b"
  define n2 where "n2 = 256 * n1 + c"
  from assms have l: "a < 256" "b < 256" "c < 256" "d < 256" by simp_all
  have f: "from_bytes [a, b, c, d] = 256 * n2 + d" by (simp add: from_bytes_def n1_def n2_def)
  have r0: "(256 * n2 + d) mod 256 = d" "(256 * n2 + d) div 256 = n2" using l by simp_all
  have r1: "n2 mod 256 = c" "n2 div 256 = n1" unfolding n2_def using l by simp_all
  have r2: "n1 mod 256 = b" "n1 div 256 = a" unfolding n1_def using l by simp_all
  have r3: "a mod 256 = a" using l by simp
  show ?thesis unfolding to_bytes4_nested f r0 r1 r2 r3 ..
qed

lemma str_ipv4_quad:
  "str_ipv4 x = quad (x div 16777216 mod 256) (x div 65536 mod 256) (x div 256 mod 256) (x mod 256)"
  by (simp add: str_ipv4_def to_bytes4_def quad_def)

lemma str_ipv4_from_bytes:
  "a \<le> 255 \<Longrightarrow> b \<le> 255 \<Longrightarrow> c \<le> 255 \<Longrightarrow> d \<le> 255 \<Longrightarrow> str_ipv4 (from_bytes [a, b, c, d]) = quad a b c d"
  by (simp add: str_ipv4_def to_bytes4_from_bytes quad_def)

lemma IPv4Address_str_ipv4: "IPv4Address (str_ipv4 x) = Inr x" if "x < 2 ^ 32"
proof -
  have "IPv4Address (str_ipv4 x) = Inr (from_bytes (to_bytes4 x))"
    unfolding str_ipv4_quad to_bytes4_def by (rule IPv4Address_quad) simp_all
  with that show ?thesis by (simp add: from_bytes_to_bytes4)
qed

lemma str_ipv4_no_slash: "CHR ''/'' \<notin> set (str_ipv4 x)" "CHR ''-'' \<notin> set (str_ipv4 x)"
  by (simp_all add: str_ipv4_quad quad_no_slash)

subsection \<open>Netmasks\<close>

lemma ALL_ONES_mask: "ALL_ONES = mask 32"
  by (simp add: ALL_ONES_def mask_eq_exp_minus_1)

lemma bit_bound: "x < 2 ^ m \<Longrightarrow> bit x n \<Longrightarrow> n < m" for x :: nat
  using bit_take_bit_iff [of m x n] by (simp add: take_bit_nat_eq_self)

lemma ip_int_from_prefix_mask: "ip_int_from_prefix p = mask 32 XOR mask (32 - p)"
  by (simp add: ip_int_from_prefix_def ALL_ONES_mask drop_bit_mask_eq)

lemma and_netmask:
  fixes x :: nat
  assumes "x < 2 ^ 32" "p \<le> 32"
  shows "x AND ip_int_from_prefix p = x - x mod 2 ^ (32 - p)"
proof -
  have "x AND (mask 32 XOR mask (32 - p)) = push_bit (32 - p) (drop_bit (32 - p) x)"
  proof (rule bit_eqI)
    fix n
    show "bit (x AND (mask 32 XOR mask (32 - p))) n
        = bit (push_bit (32 - p) (drop_bit (32 - p) x)) n"
      using bit_bound [OF assms(1), of n] by (auto simp: bit_simps)
  qed
  also have "\<dots> = x - x mod 2 ^ (32 - p)"
    by (simp add: push_bit_eq_mult drop_bit_eq_div minus_mod_eq_div_mult)
  finally show ?thesis by (simp add: ip_int_from_prefix_mask)
qed

lemma hostmask: "ip_int_from_prefix p XOR ALL_ONES = mask (32 - p)"
  unfolding ip_int_from_prefix_mask ALL_ONES_mask
  by (rule bit_eqI) (auto simp: bit_simps)

lemma or_hostmask:
  fixes y :: nat
  assumes "2 ^ k dvd y"
  shows "y OR mask k = y + 2 ^ k - 1"
proof -
  from assms have "take_bit k y = 0" by (simp add: take_bit_eq_mod)
  then have "y AND mask k = 0" by (simp add: take_bit_eq_mask)
  then have "y OR mask k = y + mask k" by (simp add: disjunctive_add_eq_or)
  then show ?thesis by (simp add: mask_eq_exp_minus_1)
qed

subsection \<open>Steps of the scan thread and of a task\<close>

lemma set_worker_simps [simp]:
  "is_scanning (set_worker i t s) = is_scanning s"
  "pc (set_worker i t s) = pc s"
  "events (set_worker i t s) = events s"
  "hosts_scanned (set_worker i t s) = hosts_scanned s"
  "total_hosts (set_worker i t s) = total_hosts s"
  "partial_results (set_worker i t s) = partial_results s"
  "devices (set_worker i t s) = devices s"
  "hosts_var (set_worker i t s) = hosts_var s"
  "ip_range_arg (set_worker i t s) = ip_range_arg s"
  "progress_callback (set_worker i t s) = progress_callback s"
  "workers (set_worker i t s) = (workers s)[i := t]"
  by (simp_all add: set_worker_def)

lemma is_port_open_total: "is_port_open w a p = Inr (connect_ex w a p 500 = Inr 0)"
  by (simp add: is_port_open_def try_except_def split: sum.splits)

lemma liveness_fallback_total: "liveness_fallback w a \<noteq> Inl e"
  by (auto simp: liveness_fallback_def try_except_def split: sum.splits if_splits)

lemma resolve_hostname_total:
  "resolve_hostname w a = Inr (case gethostbyaddr w a of Inl e \<Rightarrow> a | Inr n \<Rightarrow> n)"
  by (simp add: resolve_hostname_def try_except_def split: sum.splits)

lemma list_all_update: "list_all P xs \<Longrightarrow> P y \<Longrightarrow> list_all P (xs[i := y])"
  using set_update_subset_insert [of xs i y] by (auto simp: list_all_iff)

lemma progress_values_append [simp]:
  "progress_values (xs @ ys) = progress_values xs @ progress_values ys"
  by (induction xs rule: progress_values.induct) simp_all

lemma length_filter_update:
  "i < length xs \<Longrightarrow>
   length (filter P (xs[i := y])) + (if P (xs ! i) then 1 else 0)
     = length (filter P xs) + (if P y then 1 else 0)"
proof (induction xs arbitrary: i)
  case Nil
  then show ?case by simp
next
  case (Cons x xs)
  then show ?case by (cases i) (auto split: if_splits)
qed

lemma length_filter_update_same:
  "i < length xs \<Longrightarrow> P y = P (xs ! i) \<Longrightarrow> length (filter P (xs[i := y])) = length (filter P xs)"
  using length_filter_update [of i xs P y] by (simp split: if_splits)

lemma length_filter_update_new:
  "i < length xs \<Longrightarrow> P y \<Longrightarrow> \<not> P (xs ! i) \<Longrightarrow> length (filter P (xs[i := y])) = Suc (length (filter P xs))"
  using length_filter_update [of i xs P y] by simp

lemma coord_stepE [consumes 1, case_names L152 L153 L154 parse_fails parse_ok L160 L163
    submit_done submit_break submit wait_done wait_cancel wait_next pool_exit
    L187_run L187_stopped L188 sort_fails sort_ok L190 unwind L193 L194]:
  assumes "coord_step w s = Some s'"
  obtains
    "pc s = L152" "s' = s\<lparr>is_scanning := True, pc := L153\<rparr>"
  | "pc s = L153" "s' = s\<lparr>partial_results := [], pc := L154\<rparr>"
  | "pc s = L154" "s' = s\<lparr>hosts_scanned := 0, devices := [], pc := L159\<rparr>"
  | e where "pc s = L159" "parse_ip_range (ip_range_arg s) = Inl e" "s' = s\<lparr>pc := L193 e\<rparr>"
  | hs where "pc s = L159" "parse_ip_range (ip_range_arg s) = Inr hs"
      "s' = s\<lparr>hosts_var := hs, pc := L160\<rparr>"
  | "pc s = L160" "s' = s\<lparr>total_hosts := length (hosts_var s), pc := L163\<rparr>"
  | "pc s = L163"
      "s' = s\<lparr>events := (if progress_callback s
                            then events s @ [Progress 0 (total_hosts s)] else events s),
               pc := L_submit (hosts_var s)\<rparr>"
  | "pc s = L_submit []" "s' = s\<lparr>pc := L_wait (length (workers s))\<rparr>"
  | h hs where "pc s = L_submit (h # hs)" "\<not> is_scanning s"
      "s' = s\<lparr>pc := L_wait (length (workers s))\<rparr>"
  | h hs where "pc s = L_submit (h # hs)" "is_scanning s"
      "s' = s\<lparr>workers := workers s @
                   [\<lparr>w_ip = str_ipv4 h, w_pc = W_pending, alive = False, open_ports = []\<rparr>],
               pc := L_submit hs\<rparr>"
  | "pc s = L_wait 0" "s' = s\<lparr>pc := L_exit\<rparr>"
  | n where "pc s = L_wait (Suc n)" "\<not> is_scanning s"
      "s' = s\<lparr>workers := map (\<lambda>t. if w_pc t = W_pending then t\<lparr>w_pc := W_cancelled\<rparr> else t)
                             (workers s),
               pc := L_exit\<rparr>"
  | n where "pc s = L_wait (Suc n)" "is_scanning s" "s' = s\<lparr>pc := L_wait n\<rparr>"
  | "pc s = L_exit" "list_all worker_done (workers s)" "s' = s\<lparr>pc := L187\<rparr>"
  | "pc s = L187" "is_scanning s" "s' = s\<lparr>pc := L188\<rparr>"
  | "pc s = L187" "\<not> is_scanning s" "s' = s\<lparr>pc := No_thread\<rparr>"
  | "pc s = L188" "s' = s\<lparr>is_scanning := False, pc := L189\<rparr>"
  | e where "pc s = L189" "sort_devices (devices s) = Inl e" "s' = s\<lparr>pc := L193 e\<rparr>"
  | ds where "pc s = L189" "sort_devices (devices s) = Inr ds" "s' = s\<lparr>pc := L190 ds\<rparr>"
  | ds where "pc s = L190 ds" "s' = s\<lparr>events := events s @ [Complete ds], pc := No_thread\<rparr>"
  | e where "pc s = L_unwind e" "list_all worker_done (workers s)" "s' = s\<lparr>pc := L193 e\<rparr>"
  | e where "pc s = L193 e" "s' = s\<lparr>is_scanning := False, pc := L194 e\<rparr>"
  | e where "pc s = L194 e"
      "s' = s\<lparr>events := events s @ [Failed (failed_message w e)], pc := No_thread\<rparr>"
proof (cases "pc s")
  case No_thread
  with assms show ?thesis by (simp add: coord_step_def)
next
  case L152
  with assms that(1) show ?thesis by (simp add: coord_step_def)
next
  case L153
  with assms that(2) show ?thesis by (simp add: coord_step_def)
next
  case L154
  with assms that(3) show ?thesis by (simp add: coord_step_def)
next
  case L159
  with assms that(4,5) show ?thesis by (auto simp: coord_step_def split: sum.splits)
next
  case L160
  with assms that(6) show ?thesis by (simp add: coord_step_def)
next
  case L163
  with assms that(7) show ?thesis by (simp add: coord_step_def)
next
  case (L_submit hs)
  with assms that(8,9,10) show ?thesis
    by (cases hs) (auto simp: coord_step_def split: if_splits)
next
  case (L_wait n)
  with assms that(11,12,13) show ?thesis
    by (cases n) (auto simp: coord_step_def split: if_splits)
next
  case L_exit
  with assms that(14) show ?thesis by (auto simp: coord_step_def split: if_splits)
next
  case L187
  with assms that(15,16) show ?thesis by (auto simp: coord_step_def split: if_splits)
next
  case L188
  with assms that(17) show ?thesis by (simp add: coord_step_def)
next
  case L189
  with assms that(18,19) show ?thesis by (auto simp: coord_step_def split: sum.splits)
next
  case (L190 ds)
  with assms that(20) show ?thesis by (simp add: coord_step_def)
next
  case (L_unwind e)
  with assms that(21) show ?thesis by (auto simp: coord_step_def split: if_splits)
next
  case (L193 e)
  with assms that(22) show ?thesis by (simp add: coord_step_def)
next
  case (L194 e)
  with assms that(23) show ?thesis by (simp add: coord_step_def)
qed

lemma work_stepE [consumes 1, case_names start entry_stop entry port_stop port_open port_closed
    fallback no_fallback check_append check_skip append count]:
  assumes "work_step w i s = Some s'"
  obtains
    "i < length (workers s)" "w_pc (workers s ! i) = W_pending"
      "s' = set_worker i ((workers s ! i)\<lparr>w_pc := W_entry\<rparr>) s"
  | "i < length (workers s)" "w_pc (workers s ! i) = W_entry" "\<not> is_scanning s"
      "s' = set_worker i ((workers s ! i)\<lparr>w_pc := W_returned\<rparr>) s"
  | "i < length (workers s)" "w_pc (workers s ! i) = W_entry" "is_scanning s"
      "s' = set_worker i ((workers s ! i)\<lparr>w_pc := W_ports common_ports\<rparr>) s"
  | port rest where "i < length (workers s)" "w_pc (workers s ! i) = W_ports (port # rest)"
      "\<not> is_scanning s" "s' = set_worker i ((workers s ! i)\<lparr>w_pc := W_returned\<rparr>) s"
  | port rest where "i < length (workers s)" "w_pc (workers s ! i) = W_ports (port # rest)"
      "is_scanning s" "connect_ex w (w_ip (workers s ! i)) port 500 = Inr 0"
      "s' = set_worker i ((workers s ! i)\<lparr>alive := True,
              open_ports := open_ports (workers s ! i) @ [port], w_pc := W_ports rest\<rparr>) s"
  | port rest where "i < length (workers s)" "w_pc (workers s ! i) = W_ports (port # rest)"
      "is_scanning s" "connect_ex w (w_ip (workers s ! i)) port 500 \<noteq> Inr 0"
      "s' = set_worker i ((workers s ! i)\<lparr>w_pc := W_ports rest\<rparr>) s"
  | b where "i < length (workers s)" "w_pc (workers s ! i) = W_ports []"
      "\<not> alive (workers s ! i)" "is_scanning s"
      "liveness_fallback w (w_ip (workers s ! i)) = Inr b"
      "s' = set_worker i ((workers s ! i)\<lparr>alive := b, w_pc := W_check\<rparr>) s"
  | "i < length (workers s)" "w_pc (workers s ! i) = W_ports []"
      "alive (workers s ! i) \<or> \<not> is_scanning s"
      "s' = set_worker i ((workers s ! i)\<lparr>w_pc := W_check\<rparr>) s"
  | "i < length (workers s)" "w_pc (workers s ! i) = W_check"
      "alive (workers s ! i)" "is_scanning s"
      "s' = set_worker i ((workers s ! i)\<lparr>w_pc := W_append\<rparr>) s"
  | "i < length (workers s)" "w_pc (workers s ! i) = W_check"
      "\<not> alive (workers s ! i) \<or> \<not> is_scanning s"
      "s' = set_worker i ((workers s ! i)\<lparr>w_pc := W_count\<rparr>) s"
  | d where "i < length (workers s)" "w_pc (workers s ! i) = W_append"
      "d = make_device (case gethostbyaddr w (w_ip (workers s ! i)) of
                          Inl e \<Rightarrow> w_ip (workers s ! i) | Inr n \<Rightarrow> n)
             (w_ip (workers s ! i)) (open_ports (workers s ! i))"
      "s' = set_worker i ((workers s ! i)\<lparr>w_pc := W_count\<rparr>)
              (s\<lparr>partial_results := partial_results s @ [d], devices := devices s @ [d]\<rparr>)"
  | "i < length (workers s)" "w_pc (workers s ! i) = W_count"
      "s' = set_worker i ((workers s ! i)\<lparr>w_pc := W_finished\<rparr>)
              (s\<lparr>hosts_scanned := hosts_scanned s + 1,
                 events := (if progress_callback s
                            then events s @ [Progress (hosts_scanned s + 1) (total_hosts s)]
                            else events s)\<rparr>)"
proof -
  from assms have i: "i < length (workers s)"
    by (simp add: work_step_def split: if_splits)
  show ?thesis
  proof (cases "w_pc (workers s ! i)")
    case W_pending
    with assms i that(1) show ?thesis
      by (auto simp: work_step_def Let_def split: if_splits)
  next
    case W_entry
    with assms i that(2,3) show ?thesis
      by (auto simp: work_step_def Let_def split: if_splits)
  next
    case (W_ports ps)
    show ?thesis
    proof (cases ps)
      case Nil
      with W_ports assms i that(7,8) liveness_fallback_total [of w "w_ip (workers s ! i)"]
      show ?thesis
        by (auto simp: work_step_def Let_def split: if_splits sum.splits)
    next
      case (Cons port rest)
      with W_ports assms i that(4,5,6) show ?thesis
        by (auto simp: work_step_def Let_def is_port_open_total split: if_splits)
    qed
  next
    case W_check
    with assms i that(9,10) show ?thesis
      by (auto simp: work_step_def Let_def split: if_splits)
  next
    case W_append
    with assms i that(11) show ?thesis
      by (auto simp: work_step_def Let_def resolve_hostname_total)
  next
    case W_count
    with assms i that(12) show ?thesis
      by (auto simp: work_step_def Let_def)
  next
    case W_cancelled
    with assms i show ?thesis by (simp add: work_step_def Let_def)
  next
    case W_returned
    with assms i show ?thesis by (simp add: work_step_def Let_def)
  next
    case W_finished
    with assms i show ?thesis by (simp add: work_step_def Let_def)
  next
    case (W_raised e)
    with assms i show ?thesis by (simp add: work_step_def Let_def)
  qed
qed

lemma progress_not_final: "is_progress x \<Longrightarrow> \<not> is_failed x \<and> \<not> is_complete x"
  by (cases x) auto

lemma not_complete_if_progress: "list_all is_progress evs \<Longrightarrow> \<not> list_ex is_complete evs"
  by (auto simp: list_all_iff list_ex_iff dest: progress_not_final)

lemma not_failed_if_progress: "list_all is_progress evs \<Longrightarrow> \<not> list_ex is_failed evs"
  by (auto simp: list_all_iff list_ex_iff dest: progress_not_final)

lemma finished_if_done:
  "worker_done t \<Longrightarrow> \<not> dropped t \<Longrightarrow> \<not> raised t \<Longrightarrow> finished t"
  by (cases "w_pc t") (auto simp: worker_done_def dropped_def raised_def finished_def)

lemma all_finished_if_done:
  "list_all worker_done ts \<Longrightarrow> list_all (\<lambda>t. \<not> dropped t) ts \<Longrightarrow>
   list_all (\<lambda>t. \<not> raised t) ts \<Longrightarrow> list_all finished ts"
  by (auto simp: list_all_iff intro: finished_if_done)

lemma filter_finished_cancel:
  "filter finished (map (\<lambda>t. if w_pc t = W_pending then t\<lparr>w_pc := W_cancelled\<rparr> else t) ts)
   = filter finished ts"
  by (induction ts) (auto simp: finished_def)

lemma finished_nth: "list_all finished ts \<Longrightarrow> i < length ts \<Longrightarrow> w_pc (ts ! i) = W_finished"
  by (simp add: list_all_length finished_def)

subsection \<open>Invariants of the reachable states\<close>

lemma step_cases [consumes 1, case_names coord work ignored start stop raises]:
  assumes "step w a s = Some s'"
  obtains "a = Coord" "coord_step w s = Some s'"
  | i where "a = Work i" "work_step w i s = Some s'"
  | r p where "a = Start r p" "is_scanning s" "s' = s"
  | r p where "a = Start r p" "\<not> is_scanning s" "pc s = No_thread"
      "s' = s\<lparr>ip_range_arg := r, progress_callback := p, pc := L152, hosts_var := [],
               devices := [], workers := [], events := []\<rparr>"
  | "a = Stop" "s' = s\<lparr>is_scanning := False\<rparr>"
  | e h hs where "a = Submit_raises e" "pc s = L_submit (h # hs)" "is_scanning s"
      "s' = s\<lparr>pc := L_unwind e\<rparr>"
proof (cases a)
  case (Start r p)
  with assms that(3,4) show ?thesis by (auto simp: scan_network_alone_def split: if_splits)
next
  case Stop
  with assms that(5) show ?thesis by (simp add: stop_scan_def)
next
  case Coord
  with assms that(1) show ?thesis by simp
next
  case (Work i)
  with assms that(2) show ?thesis by simp
next
  case (Submit_raises e)
  show ?thesis
  proof (cases "pc s")
    case (L_submit hs)
    with assms Submit_raises that(6) show ?thesis by (cases hs) (auto split: if_splits)
  qed (use assms Submit_raises in simp_all)
qed

lemma inv_events_coord: "inv_events w s \<Longrightarrow> coord_step w s = Some s' \<Longrightarrow> inv_events w s'"
  by (erule coord_stepE) (auto simp: inv_events_def list_ex_iff list_all_iff dest: progress_not_final)

lemma inv_events_work: "inv_events w s \<Longrightarrow> work_step w i s = Some s' \<Longrightarrow> inv_events w s'"
  by (erule work_stepE) (auto simp: inv_events_def list_ex_iff list_all_iff)

lemma inv_parse_coord: "inv_parse s \<Longrightarrow> coord_step w s = Some s' \<Longrightarrow> inv_parse s'"
  by (erule coord_stepE) (auto simp: inv_parse_def)

lemma inv_parse_work: "inv_parse s \<Longrightarrow> work_step w i s = Some s' \<Longrightarrow> inv_parse s'"
  by (erule work_stepE) (auto simp: inv_parse_def)

lemma no_raise_coord: "no_raise s \<Longrightarrow> coord_step w s = Some s' \<Longrightarrow> no_raise s'"
  by (erule coord_stepE) (auto simp: no_raise_def list_all_iff raised_def)

lemma no_raise_work: "no_raise s \<Longrightarrow> work_step w i s = Some s' \<Longrightarrow> no_raise s'"
  by (erule work_stepE) (auto simp: no_raise_def raised_def intro!: list_all_update)

lemma inv_count_coord:
  "inv_count s \<Longrightarrow> inv_parse s \<Longrightarrow> inv_events w s \<Longrightarrow> coord_step w s = Some s' \<Longrightarrow> inv_count s'"
  by (erule coord_stepE)
     (auto simp: inv_count_def inv_parse_def inv_events_def filter_finished_cancel finished_def
        dest: not_complete_if_progress)

lemma inv_count_work:
  "inv_count s \<Longrightarrow> inv_parse s \<Longrightarrow> work_step w i s = Some s' \<Longrightarrow> inv_count s'"
  by (erule work_stepE)
     (auto simp: inv_count_def inv_parse_def finished_def length_filter_update_same
        length_filter_update_new)

lemma inv_total_coord:
  "inv_total s \<Longrightarrow> inv_events w s \<Longrightarrow> coord_step w s = Some s' \<Longrightarrow> inv_total s'"
  by (erule coord_stepE)
     (auto simp: inv_total_def inv_events_def dest: not_complete_if_progress)

lemma inv_total_work: "inv_total s \<Longrightarrow> work_step w i s = Some s' \<Longrightarrow> inv_total s'"
  by (erule work_stepE) (auto simp: inv_total_def list_ex_iff)

lemma inv_submit_coord:
  "inv_submit s \<Longrightarrow> inv_parse s \<Longrightarrow> coord_step w s = Some s' \<Longrightarrow> inv_submit s'"
  by (erule coord_stepE) (auto simp: inv_submit_def inv_parse_def dropped_def list_all_iff)

lemma inv_submit_work: "inv_submit s \<Longrightarrow> work_step w i s = Some s' \<Longrightarrow> inv_submit s'"
  by (erule work_stepE) (auto simp: inv_submit_def dropped_def intro!: list_all_update)

lemma no_complete_yet: "inv_events w s \<Longrightarrow> pc s \<noteq> No_thread \<Longrightarrow> \<not> list_ex is_complete (events s)"
  by (simp add: inv_events_def not_complete_if_progress)

lemma inv_done_coord:
  assumes inv: "inv_done s" and sub: "inv_submit s" and nr: "no_raise s"
    and ev: "inv_events w s" and st: "coord_step w s = Some s'"
  shows "inv_done s'"
  using st
proof (cases rule: coord_stepE)
  case L187_run
  with inv sub nr have "list_all finished (workers s)" "length (workers s) = length (hosts_var s)"
    by (simp_all add: inv_done_def inv_submit_def no_raise_def all_finished_if_done)
  with L187_run no_complete_yet [OF ev] show ?thesis by (simp add: inv_done_def)
next
  case (L190 ds)
  with inv show ?thesis by (simp add: inv_done_def)
qed (use inv no_complete_yet [OF ev] in \<open>simp_all add: inv_done_def\<close>)

lemma inv_done_work:
  assumes inv: "inv_done s" and ev: "inv_events w s" and st: "work_step w i s = Some s'"
  shows "inv_done s'"
proof -
  have active: "\<not> worker_done (workers s ! i)" "i < length (workers s)"
    using st by (cases rule: work_stepE; simp add: worker_done_def)+
  have a: "pc s \<noteq> L187"
    using inv active by (auto simp: inv_done_def list_all_length)
  have b: "\<not> finishing (pc s)" "\<not> list_ex is_complete (events s)"
    using inv active by (auto simp: inv_done_def list_all_length finished_def worker_done_def)
  have c: "pc s' = pc s" "list_ex is_complete (events s') = list_ex is_complete (events s)"
    using st by (cases rule: work_stepE; simp)+
  from a b c show ?thesis by (simp add: inv_done_def)
qed

lemma inv_events_step:
  assumes "inv_events w s" and st: "step w a s = Some s'"
  shows "inv_events w s'"
  using st
proof (cases rule: step_cases)
  case coord
  with assms(1) show ?thesis by (auto intro: inv_events_coord)
next
  case (work i)
  with assms(1) show ?thesis by (auto intro: inv_events_work)
qed (use assms(1) in \<open>auto simp: inv_events_def\<close>)

lemma inv_parse_step:
  assumes "inv_parse s" and st: "step w a s = Some s'"
  shows "inv_parse s'"
  using st
proof (cases rule: step_cases)
  case coord
  with assms(1) show ?thesis by (auto intro: inv_parse_coord)
next
  case (work i)
  with assms(1) show ?thesis by (auto intro: inv_parse_work)
qed (use assms(1) in \<open>auto simp: inv_parse_def\<close>)

lemma no_raise_step:
  assumes "no_raise s" and st: "step w a s = Some s'"
  shows "no_raise s'"
  using st
proof (cases rule: step_cases)
  case coord
  with assms(1) show ?thesis by (auto intro: no_raise_coord)
next
  case (work i)
  with assms(1) show ?thesis by (auto intro: no_raise_work)
qed (use assms(1) in \<open>auto simp: no_raise_def\<close>)

lemma inv_count_step:
  assumes "inv_count s" "inv_parse s" "inv_events w s" and st: "step w a s = Some s'"
  shows "inv_count s'"
  using st
proof (cases rule: step_cases)
  case coord
  with assms(1-3) show ?thesis by (auto intro: inv_count_coord)
next
  case (work i)
  with assms(1,2) show ?thesis by (auto intro: inv_count_work)
qed (use assms(1) in \<open>auto simp: inv_count_def\<close>)

lemma inv_total_step:
  assumes "inv_total s" "inv_events w s" and st: "step w a s = Some s'"
  shows "inv_total s'"
  using st
proof (cases rule: step_cases)
  case coord
  with assms(1,2) show ?thesis by (auto intro: inv_total_coord)
next
  case (work i)
  with assms(1) show ?thesis by (auto intro: inv_total_work)
qed (use assms(1) in \<open>auto simp: inv_total_def\<close>)

lemma inv_submit_step:
  assumes "inv_submit s" "inv_parse s" and st: "step w a s = Some s'"
  shows "inv_submit s'"
  using st
proof (cases rule: step_cases)
  case coord
  with assms(1,2) show ?thesis by (auto intro: inv_submit_coord)
next
  case (work i)
  with assms(1) show ?thesis by (auto intro: inv_submit_work)
qed (use assms(1) in \<open>auto simp: inv_submit_def\<close>)

lemma inv_done_step:
  assumes "inv_done s" "inv_submit s" "no_raise s" "inv_events w s"
    and st: "step w a s = Some s'"
  shows "inv_done s'"
  using st
proof (cases rule: step_cases)
  case coord
  with assms(1-4) show ?thesis by (auto intro: inv_done_coord)
next
  case (work i)
  with assms(1,4) show ?thesis by (auto intro: inv_done_work)
qed (use assms(1) in \<open>auto simp: inv_done_def\<close>)

lemma port_answers_Nil [simp]: "port_answers w a [] = []"
  by (simp add: port_answers_def)

lemma port_answers_snoc:
  "port_answers w a (ps @ [p]) =
     (if connect_ex w a p 500 = Inr 0 then port_answers w a ps @ [p] else port_answers w a ps)"
  by (simp add: port_answers_def)

lemma worker_ok_nth: "list_all (worker_ok w) ts \<Longrightarrow> i < length ts \<Longrightarrow> worker_ok w (ts ! i)"
  by (simp add: list_all_length)

lemma worker_ok_port_open:
  assumes "worker_ok w t" "w_pc t = W_ports (p # rest)" "connect_ex w (w_ip t) p 500 = Inr 0"
  shows "worker_ok w (t\<lparr>alive := True, open_ports := open_ports t @ [p], w_pc := W_ports rest\<rparr>)"
proof -
  from assms(1,2) obtain tried where
    "common_ports = tried @ p # rest" "open_ports t = port_answers w (w_ip t) tried"
    by (auto simp: worker_ok_def)
  with assms(3) have "common_ports = (tried @ [p]) @ rest"
    "open_ports t @ [p] = port_answers w (w_ip t) (tried @ [p])"
    by (simp_all add: port_answers_snoc)
  then show ?thesis unfolding worker_ok_def by (simp del: append_assoc) blast
qed

lemma worker_ok_port_closed:
  assumes "worker_ok w t" "w_pc t = W_ports (p # rest)" "connect_ex w (w_ip t) p 500 \<noteq> Inr 0"
  shows "worker_ok w (t\<lparr>w_pc := W_ports rest\<rparr>)"
proof -
  from assms(1,2) obtain tried where
    "common_ports = tried @ p # rest" "open_ports t = port_answers w (w_ip t) tried"
    by (auto simp: worker_ok_def)
  with assms(3) have "common_ports = (tried @ [p]) @ rest"
    "open_ports t = port_answers w (w_ip t) (tried @ [p])"
    by (simp_all add: port_answers_snoc)
  then show ?thesis unfolding worker_ok_def by (simp del: append_assoc) blast
qed

lemma worker_ok_ports_done:
  "worker_ok w t \<Longrightarrow> w_pc t = W_ports [] \<Longrightarrow> open_ports t = port_answers w (w_ip t) common_ports"
  by (auto simp: worker_ok_def)

lemma inv_ports_coord: "inv_ports w s \<Longrightarrow> coord_step w s = Some s' \<Longrightarrow> inv_ports w s'"
  by (erule coord_stepE) (auto simp: inv_ports_def list_all_iff worker_ok_def)

lemma inv_ports_work:
  assumes inv: "inv_ports w s" and st: "work_step w i s = Some s'"
  shows "inv_ports w s'"
proof -
  from st have i: "i < length (workers s)" by (cases rule: work_stepE)
  with inv have ok: "worker_ok w (workers s ! i)"
    by (simp add: inv_ports_def worker_ok_nth)
  from st show ?thesis
  proof (cases rule: work_stepE)
    case (port_open port rest)
    with inv ok show ?thesis
      by (auto simp: inv_ports_def intro!: list_all_update worker_ok_port_open)
  next
    case (port_closed port rest)
    with inv ok show ?thesis
      by (auto simp: inv_ports_def intro!: list_all_update worker_ok_port_closed)
  next
    case (append d)
    with ok have "open_ports (workers s ! i) = port_answers w (w_ip (workers s ! i)) common_ports"
      by (simp add: worker_ok_def)
    with append(3) have "d = expected_device w (ip d)"
      by (simp add: expected_device_def make_device_def)
    with inv append show ?thesis
      by (auto simp: inv_ports_def worker_ok_def intro!: list_all_update)
  qed (use inv ok in \<open>auto simp: inv_ports_def worker_ok_def intro!: list_all_update\<close>)
qed

lemma inv_ports_step:
  assumes "inv_ports w s" and st: "step w a s = Some s'"
  shows "inv_ports w s'"
  using st
proof (cases rule: step_cases)
  case coord
  with assms(1) show ?thesis by (auto intro: inv_ports_coord)
next
  case (work i)
  with assms(1) show ?thesis by (auto intro: inv_ports_work)
qed (use assms(1) in \<open>auto simp: inv_ports_def\<close>)

lemma invs_step:
  assumes "invs w s" and st: "step w a s = Some s'"
  shows "invs w s'"
proof -
  from assms(1) have a: "inv_events w s" "inv_parse s" "no_raise s" "inv_count s" "inv_total s"
    "inv_submit s" "inv_done s" "inv_ports w s"
    by (simp_all add: invs_def)
  have "inv_events w s'" using a(1) st by (rule inv_events_step)
  moreover have "inv_parse s'" using a(2) st by (rule inv_parse_step)
  moreover have "no_raise s'" using a(3) st by (rule no_raise_step)
  moreover have "inv_count s'" using a(4,2,1) st by (rule inv_count_step)
  moreover have "inv_total s'" using a(5,1) st by (rule inv_total_step)
  moreover have "inv_submit s'" using a(6,2) st by (rule inv_submit_step)
  moreover have "inv_done s'" using a(7,6,3,1) st by (rule inv_done_step)
  moreover have "inv_ports w s'" using a(8) st by (rule inv_ports_step)
  ultimately show ?thesis by (simp add: invs_def)
qed

lemma invs_init: "invs w new_sys"
  by (simp add: invs_def new_sys_def inv_events_def inv_parse_def no_raise_def inv_count_def
      inv_total_def inv_submit_def inv_done_def inv_ports_def)

lemma reachable_invs: "reachable w s \<Longrightarrow> invs w s"
  by (induction rule: reachable.induct) (auto intro: invs_init invs_step)

subsection \<open>The concrete runs\<close>

lemmas eval_defs =
  scan_network_alone_def stop_scan_def coord_step_def work_step_def set_worker_def new_sys_def
  parse_ip_range_def IPv4Address_def ip_int_from_string_def parse_octet_def is_ascii_digit_def
  decimal_def digit_val_def from_bytes_def str_ipv4_def to_bytes4_def str_nat.simps
  digit_char_def common_ports_def is_port_open_def liveness_fallback_def resolve_hostname_def
  try_except_def make_device_def worker_running_def worker_done_def failed_message_def
  sort_devices_def get_partial_results_def

lemma str_ipv4_example: "str_ipv4 167772161 = ''10.0.0.1''"
  by (simp add: str_ipv4_def to_bytes4_def str_nat.simps digit_char_def)

lemma parse_example: "parse_ip_range ''10.0.0.1'' = Inr [167772161]"
  by (simp add: eval_defs)

lemma parse_bad: "parse_ip_range ''bad'' = Inl (Expected_4_octets ''bad'')"
  by (simp add: eval_defs)


lemma run_probe_stop: "run ssh_world [Stop, Work 0] probe_state = Some probe_stopped_state"
  by (simp add: probe_state_def probe_stopped_state_def ssh_device_def ssh_world_def eval_defs)

lemma sort_single: "get_partial_results (probe_state\<lparr>partial_results := [ssh_device]\<rparr>) = Inr [ssh_device]"
  by (simp add: probe_state_def ssh_device_def eval_defs)


lemma run_failing: "run quiet_world failing_trace new_sys = Some failing_state"
  by (simp add: failing_trace_def failing_state_def quiet_world_def eval_defs)

lemmas parse_defs =
  rsplit1_def py_int_def int_digits_def max_str_digits_def is_space_def range_hosts_def
  str_int_def upto.simps

lemma parse_two: "parse_ip_range ''10.0.0.1-2'' = Inr [167772161, 167772162]"
  by (simp add: eval_defs parse_defs)

lemmas step_defs =
  scan_network_alone_def stop_scan_def coord_step_def work_step_def set_worker_def new_sys_def
  IPv4Address_def ip_int_from_string_def parse_octet_def is_ascii_digit_def
  decimal_def digit_val_def from_bytes_def str_ipv4_def to_bytes4_def str_nat.simps
  digit_char_def common_ports_def is_port_open_def liveness_fallback_def resolve_hostname_def
  try_except_def make_device_def worker_running_def worker_done_def failed_message_def
  sort_devices_def get_partial_results_def

lemma run_append:
  "run w (as @ bs) s = (case run w as s of None \<Rightarrow> None | Some s' \<Rightarrow> run w bs s')"
  by (induction as arbitrary: s) (auto split: option.splits)

lemma run_mixed_submit: "run mixed_world mixed_trace_submit new_sys = Some mixed_submitted"
  by (simp add: mixed_trace_submit_def mixed_submitted_def mixed_world_def step_defs parse_two)

lemma run_mixed_first: "run mixed_world mixed_trace_first mixed_submitted = Some mixed_half"
  by (simp add: mixed_trace_first_def mixed_submitted_def mixed_half_def mixed_device_def
      mixed_world_def step_defs)

lemma run_mixed_second: "run mixed_world mixed_trace_second mixed_half = Some mixed_state"
  by (simp add: mixed_trace_second_def mixed_half_def mixed_state_def mixed_device_def
      mixed_world_def step_defs)

lemma run_mixed:
  "run mixed_world (mixed_trace_submit @ mixed_trace_first @ mixed_trace_second) new_sys
     = Some mixed_state"
  by (simp add: run_append run_mixed_submit run_mixed_first run_mixed_second)

lemma reachable_run: "reachable w s \<Longrightarrow> run w acts s = Some s' \<Longrightarrow> reachable w s'"
proof (induction acts arbitrary: s)
  case Nil
  then show ?case by simp
next
  case (Cons a acts)
  then show ?case by (auto split: option.splits intro: reachable.next_state)
qed



subsection \<open>Stopping a scan\<close>




subsection \<open>Failure of a scan\<close>

text \<open>
  C7. In every reachable state: an error callback in the queue means the running flag is
  clear, no completion callback is queued, the thread has ended, and the message is
  \<open>Scan failed: \<close> followed by the text of the exception; when the range expression
  does not parse, no task exists; a parse failure at line 159, and an exception leaving
  the pool once its tasks have ended, take the thread to the handler at line 193; and
  from line 193 the next two steps of the thread clear the flag and queue the error
  callback, changing nothing else, so that the accumulator of partial results is kept.
\<close>

theorem scan_failure_reported:
  "reachable w s \<Longrightarrow>
   (Failed m \<in> set (events s) \<longrightarrow>
      \<not> is_scanning s \<and> \<not> list_ex is_complete (events s) \<and> pc s = No_thread \<and>
      (\<exists>e. m = ''Scan failed: '' @ str_error (lib_str w) e)) \<and>
   (isl (parse_ip_range (ip_range_arg s)) \<longrightarrow> workers s = []) \<and>
   (pc s = L159 \<and> parse_ip_range (ip_range_arg s) = Inl e \<longrightarrow>
      coord_step w s = Some (s\<lparr>pc := L193 e\<rparr>)) \<and>
   (pc s = L_unwind e \<and> list_all worker_done (workers s) \<longrightarrow>
      coord_step w s = Some (s\<lparr>pc := L193 e\<rparr>)) \<and>
   (pc s = L193 e \<longrightarrow>
      run w [Coord, Coord] s =
        Some (s\<lparr>is_scanning := False,
                events := events s @ [Failed (''Scan failed: '' @ str_error (lib_str w) e)],
                pc := No_thread\<rparr>) \<and>
      \<not> list_ex is_complete (events s))"
proof -
  assume "reachable w s"
  then have i: "inv_events w s" "inv_parse s"
    using reachable_invs [of w s] by (simp_all add: invs_def)
  have a: "\<not> is_scanning s \<and> \<not> list_ex is_complete (events s) \<and> pc s = No_thread \<and>
      (\<exists>e. m = ''Scan failed: '' @ str_error (lib_str w) e)" if f: "Failed m \<in> set (events s)"
  proof -
    from f have lf: "list_ex is_failed (events s)"
      by (auto simp: list_ex_iff intro: bexI [of _ "Failed m"])
    with i(1) have "pc s = No_thread" by (auto simp: inv_events_def dest: not_failed_if_progress)
    with i(1) f lf show ?thesis by (auto simp: inv_events_def failed_message_def)
  qed
  have b: "workers s = []" if "isl (parse_ip_range (ip_range_arg s))"
    using that i(2) by (auto simp: inv_parse_def)
  have c: "\<not> list_ex is_complete (events s)" if "pc s = L193 e"
    using that i(1) by (auto simp: inv_events_def dest: not_complete_if_progress)
  from a b c show ?thesis
    by (auto simp: coord_step_def failed_message_def)
qed

theorem scan_failure_reported_witness:
  "reachable quiet_world failing_state \<and>
   Failed ''Scan failed: error'' \<in> set (events failing_state) \<and>
   isl (parse_ip_range (ip_range_arg failing_state)) \<and>
   \<not> is_scanning failing_state \<and> \<not> list_ex is_complete (events failing_state) \<and>
   pc failing_state = No_thread \<and> workers failing_state = []"
proof -
  have r: "reachable quiet_world failing_state"
    using reachable_run [OF reachable.init run_failing] .
  have f: "Failed ''Scan failed: error'' \<in> set (events failing_state)"
    by (simp add: failing_state_def)
  have p: "isl (parse_ip_range (ip_range_arg failing_state))"
    by (simp add: failing_state_def parse_bad)
  from scan_failure_reported [OF r, of "''Scan failed: error''"] r f p show ?thesis by simp
qed

subsection \<open>Progress\<close>



lemma liveness_fallback_value:
  "liveness_fallback w a =
     Inr (connect_ex w a 80 100 = Inr 0 \<or> \<not> isl (connect_ex w a 80 100) \<and> ping w a = Inr True)"
  by (cases "connect_ex w a 80 100"; cases "ping w a")
     (auto simp: liveness_fallback_def try_except_def)

lemma resolve_hostname_value:
  "resolve_hostname w a = Inr (case gethostbyaddr w a of Inl x \<Rightarrow> a | Inr n \<Rightarrow> n)"
  by (cases "gethostbyaddr w a") (simp_all add: resolve_hostname_def try_except_def)

lemma work_step_frame:
  "work_step w i s = Some s' \<Longrightarrow>
   pc s' = pc s \<and> is_scanning s' = is_scanning s \<and>
   filter is_failed (events s') = filter is_failed (events s)"
  by (erule work_stepE) simp_all

lemma running_task_steps:
  assumes "i < length (workers s)" "worker_running (workers s ! i)"
  shows "work_step w i s \<noteq> None"
proof (cases "w_pc (workers s ! i)")
  case (W_ports ps)
  with assms show ?thesis
    by (cases ps)
       (auto simp: work_step_def Let_def is_port_open_total liveness_fallback_value)
next
  case W_append
  with assms show ?thesis by (simp add: work_step_def Let_def resolve_hostname_value)
qed (use assms in \<open>auto simp: work_step_def Let_def worker_running_def worker_done_def\<close>)

lemma reachable_devices:
  "reachable w s \<Longrightarrow>
   list_all (\<lambda>t. \<not> raised t) (workers s) \<and>
   list_all (\<lambda>d. d = expected_device w (ip d)) (partial_results s) \<and>
   list_all (\<lambda>d. d = expected_device w (ip d)) (devices s)"
  using reachable_invs [of w s] by (simp add: invs_def no_raise_def inv_ports_def)

subsection \<open>The probe of one host\<close>

text \<open>
  C8. The port probe, the liveness fallback and the name lookup never raise, whatever
  the socket layer does: the port probe answers whether the connection was accepted, and
  "not open" when it raised; the fallback answers "alive" when port 80 accepted or, port
  80 having refused, the ping succeeded, and "not alive" in every other case, also when
  the connection or the ping raised; the lookup answers the name, and the address itself
  when it raised. A task that has started always has a next step; a step of a task
  leaves the scan thread's program counter, the running flag and the queued error
  callbacks as they are, and in no reachable state has a task ended with an exception.
  Every recorded device is the expected device of its address: its ports are the ports of
  the probe list 22, 80, 443, 3389, 53, 21, 23, 8080, 8443, 8006, 5000 that answered, in
  the order of that list.
\<close>

theorem probe_never_raises:
  "is_port_open w a p = Inr (connect_ex w a p 500 = Inr 0) \<and>
   liveness_fallback w a =
     Inr (connect_ex w a 80 100 = Inr 0 \<or>
          \<not> isl (connect_ex w a 80 100) \<and> ping w a = Inr True) \<and>
   resolve_hostname w a = Inr (case gethostbyaddr w a of Inl x \<Rightarrow> a | Inr n \<Rightarrow> n) \<and>
   is_port_open w a p \<noteq> Inl e \<and> liveness_fallback w a \<noteq> Inl e \<and> resolve_hostname w a \<noteq> Inl e \<and>
   (isl (connect_ex w a p 500) \<longrightarrow> is_port_open w a p = Inr False) \<and>
   (isl (connect_ex w a 80 100) \<longrightarrow> liveness_fallback w a = Inr False) \<and>
   (isl (ping w a) \<and> connect_ex w a 80 100 \<noteq> Inr 0 \<longrightarrow> liveness_fallback w a = Inr False) \<and>
   (isl (gethostbyaddr w a) \<longrightarrow> resolve_hostname w a = Inr a) \<and>
   (work_step w i s = Some s' \<longrightarrow>
      pc s' = pc s \<and> is_scanning s' = is_scanning s \<and>
      filter is_failed (events s') = filter is_failed (events s)) \<and>
   (i < length (workers s) \<and> worker_running (workers s ! i) \<longrightarrow> work_step w i s \<noteq> None) \<and>
   (reachable w s \<longrightarrow>
      list_all (\<lambda>t. \<not> raised t) (workers s) \<and>
      list_all (\<lambda>d. d = expected_device w (ip d)) (partial_results s) \<and>
      list_all (\<lambda>d. d = expected_device w (ip d)) (devices s)) \<and>
   hostname (expected_device w a) = (case gethostbyaddr w a of Inl x \<Rightarrow> a | Inr n \<Rightarrow> n) \<and>
   ip (expected_device w a) = a \<and>
   ports (expected_device w a) =
     (if port_answers w a common_ports \<noteq> []
      then join '', '' (map str_nat (port_answers w a common_ports))
      else ''Host alive (no open ports detected)'') \<and>
   port_answers w a common_ports =
     filter (\<lambda>p. connect_ex w a p 500 = Inr 0)
       [22, 80, 443, 3389, 53, 21, 23, 8080, 8443, 8006, 5000]"
proof (intro conjI)
  show "is_port_open w a p = Inr (connect_ex w a p 500 = Inr 0)" by (rule is_port_open_total)
  show v: "liveness_fallback w a =
     Inr (connect_ex w a 80 100 = Inr 0 \<or>
          \<not> isl (connect_ex w a 80 100) \<and> ping w a = Inr True)"
    by (rule liveness_fallback_value)
  show "resolve_hostname w a = Inr (case gethostbyaddr w a of Inl x \<Rightarrow> a | Inr n \<Rightarrow> n)"
    by (rule resolve_hostname_value)
  show "is_port_open w a p \<noteq> Inl e" by (simp add: is_port_open_total)
  show "liveness_fallback w a \<noteq> Inl e" by (simp add: liveness_fallback_value)
  show "resolve_hostname w a \<noteq> Inl e" by (simp add: resolve_hostname_value)
  show "isl (connect_ex w a p 500) \<longrightarrow> is_port_open w a p = Inr False"
    by (auto simp: is_port_open_total)
  show "isl (connect_ex w a 80 100) \<longrightarrow> liveness_fallback w a = Inr False"
    by (auto simp: liveness_fallback_value)
  show "isl (ping w a) \<and> connect_ex w a 80 100 \<noteq> Inr 0 \<longrightarrow> liveness_fallback w a = Inr False"
    by (auto simp: liveness_fallback_value)
  show "isl (gethostbyaddr w a) \<longrightarrow> resolve_hostname w a = Inr a"
    by (cases "gethostbyaddr w a") (simp_all add: resolve_hostname_value)
  show "work_step w i s = Some s' \<longrightarrow>
      pc s' = pc s \<and> is_scanning s' = is_scanning s \<and>
      filter is_failed (events s') = filter is_failed (events s)"
    using work_step_frame [of w i s s'] by (rule impI)
  show "i < length (workers s) \<and> worker_running (workers s ! i) \<longrightarrow> work_step w i s \<noteq> None"
    using running_task_steps [of i s w] by blast
  show "reachable w s \<longrightarrow>
      list_all (\<lambda>t. \<not> raised t) (workers s) \<and>
      list_all (\<lambda>d. d = expected_device w (ip d)) (partial_results s) \<and>
      list_all (\<lambda>d. d = expected_device w (ip d)) (devices s)"
    using reachable_devices [of w s] by (rule impI)
  show "hostname (expected_device w a) = (case gethostbyaddr w a of Inl x \<Rightarrow> a | Inr n \<Rightarrow> n)"
    by (simp add: expected_device_def make_device_def)
  show "ip (expected_device w a) = a"
    by (simp add: expected_device_def make_device_def)
  show "ports (expected_device w a) =
     (if port_answers w a common_ports \<noteq> []
      then join '', '' (map str_nat (port_answers w a common_ports))
      else ''Host alive (no open ports detected)'')"
    by (simp add: expected_device_def make_device_def)
  show "port_answers w a common_ports =
     filter (\<lambda>p. connect_ex w a p 500 = Inr 0)
       [22, 80, 443, 3389, 53, 21, 23, 8080, 8443, 8006, 5000]"
    by (simp only: port_answers_def common_ports_def)
qed

text \<open>
  A scan of two hosts. On the first, ports 443 and 53 accept and the probe of port 80
  raises; on the second nothing accepts and the ping raises; no name is found. The scan
  completes with the one device of the first host, its ports in the order of the probe
  list, 443 before 53.
\<close>

theorem probe_never_raises_witness:
  "reachable mixed_world mixed_state \<and> reachable mixed_world mixed_submitted \<and>
   isl (connect_ex mixed_world ''10.0.0.1'' 80 500) \<and>
   is_port_open mixed_world ''10.0.0.1'' 80 = Inr False \<and>
   isl (ping mixed_world ''10.0.0.2'') \<and> connect_ex mixed_world ''10.0.0.2'' 80 100 \<noteq> Inr 0 \<and>
   liveness_fallback mixed_world ''10.0.0.2'' = Inr False \<and>
   isl (gethostbyaddr mixed_world ''10.0.0.1'') \<and>
   resolve_hostname mixed_world ''10.0.0.1'' = Inr ''10.0.0.1'' \<and>
   work_step mixed_world 0 mixed_submitted \<noteq> None \<and>
   pc (the (work_step mixed_world 0 mixed_submitted)) = L_wait 2 \<and>
   port_answers mixed_world ''10.0.0.1'' common_ports = [443, 53] \<and>
   partial_results mixed_state = [expected_device mixed_world ''10.0.0.1''] \<and>
   ports (expected_device mixed_world ''10.0.0.1'') = ''443, 53'' \<and>
   last (events mixed_state) = Complete [expected_device mixed_world ''10.0.0.1'']"
proof -
  have r1: "reachable mixed_world mixed_submitted"
    using reachable_run [OF reachable.init run_mixed_submit] .
  have r: "reachable mixed_world mixed_state"
    using reachable_run [OF reachable.init run_mixed] .
  have d: "expected_device mixed_world ''10.0.0.1'' = mixed_device"
    by (simp add: expected_device_def port_answers_def make_device_def common_ports_def
        mixed_world_def mixed_device_def str_nat.simps digit_char_def)
  have p: "port_answers mixed_world ''10.0.0.1'' common_ports = [443, 53]"
    by (simp add: port_answers_def common_ports_def mixed_world_def)
  have s: "work_step mixed_world 0 mixed_submitted \<noteq> None"
    "pc (the (work_step mixed_world 0 mixed_submitted)) = L_wait 2"
    by (simp_all add: mixed_submitted_def work_step_def set_worker_def worker_running_def
        worker_done_def)
  have f1: "isl (connect_ex mixed_world ''10.0.0.1'' 80 500)"
    and f2: "isl (ping mixed_world ''10.0.0.2'')"
    and f3: "connect_ex mixed_world ''10.0.0.2'' 80 100 \<noteq> Inr 0"
    and f4: "isl (gethostbyaddr mixed_world ''10.0.0.1'')"
    by (simp_all add: mixed_world_def)
  have m: "partial_results mixed_state = [mixed_device]"
    "last (events mixed_state) = Complete [mixed_device]"
    by (simp_all add: mixed_state_def)
  note t1 = probe_never_raises [of mixed_world "''10.0.0.1''" 80 Type_error 0 mixed_submitted
      "the (work_step mixed_world 0 mixed_submitted)"]
  note t2 = probe_never_raises [of mixed_world "''10.0.0.2''" 80 Type_error 0 mixed_state new_sys]
  from t1 f1 have o: "is_port_open mixed_world ''10.0.0.1'' 80 = Inr False" by blast
  from t2 f2 f3 have l: "liveness_fallback mixed_world ''10.0.0.2'' = Inr False" by blast
  from t1 f4 have h: "resolve_hostname mixed_world ''10.0.0.1'' = Inr ''10.0.0.1''" by blast
  from r r1 f1 f2 f3 f4 o l h s p m d show ?thesis by (simp add: mixed_device_def)
qed

subsection \<open>Starting a scan while one is running\<close>



lemma split_slash_24:
  "split_on CHR ''/'' (str_ipv4 x @ CHR ''/'' # ''24'') = [str_ipv4 x, ''24'']"
  by (simp add: split_on_append split_on_no_sep str_ipv4_no_slash)

lemma make_netmask_24: "make_netmask ''24'' = Inr (ip_int_from_prefix 24, 24)"
  by (simp add: make_netmask_def prefix_from_prefix_string_def is_ascii_digit_def decimal_def
      digit_val_def)

lemma IPv4Network_slash_24:
  assumes "x < 2 ^ 32"
  shows "IPv4Network (str_ipv4 x @ ''/24'') =
     Inr \<lparr>addr_given = x, network_address = x - x mod 256, netmask = ip_int_from_prefix 24,
          prefixlen = 24\<rparr>"
proof -
  have "x AND ip_int_from_prefix 24 = x - x mod 2 ^ (32 - 24)"
    using assms by (intro and_netmask) simp_all
  then have a: "x AND ip_int_from_prefix 24 = x - x mod 256" by simp
  show ?thesis
    using assms
    by (simp add: IPv4Network_def split_slash_24 IPv4Address_str_ipv4 make_netmask_24 a)
qed

subsection \<open>The helper for the local network\<close>

text \<open>
  C10. \<^verbatim>\<open>get_local_ip_range\<close>, called as the function of the class that it is, returns
  the /24 network of the address that the host name resolves to: when the name resolves
  to the address \<open>x\<close>, the result is \<open>x\<close> with its last octet cleared, in dotted form,
  (its first three octets and 0), followed by \<open>/24\<close>; it is the string form of the network that \<^verbatim>\<open>IPv4Network\<close> builds
  from the address and the prefix length 24, and \<open>x\<close> is one of the 256 addresses of that
  network.
\<close>

theorem get_local_ip_range_network:
  assumes "x < 2 ^ 32" and "gethostbyname w (gethostname w) = Inr (str_ipv4 x)"
  shows "get_local_ip_range w [] = Inr (str_ipv4 (x - x mod 256) @ ''/24'') \<and>
         (\<exists>net. IPv4Network (str_ipv4 x @ ''/24'') = Inr net \<and> prefixlen net = 24 \<and>
                network_address net = x - x mod 256 \<and>
                get_local_ip_range w [] = Inr (str_network net)) \<and>
         to_bytes4 (x - x mod 256) = butlast (to_bytes4 x) @ [0] \<and>
         x - x mod 256 \<le> x \<and> x \<le> x - x mod 256 + 255"
proof -
  have s: "str_nat 24 = ''24''" by (simp add: str_nat.simps digit_char_def)
  have g: "get_local_ip_range w [] = Inr (str_ipv4 (x - x mod 256) @ ''/24'')"
    using assms by (simp add: get_local_ip_range_def IPv4Network_slash_24 str_network_def s)
  have n: "\<exists>net. IPv4Network (str_ipv4 x @ ''/24'') = Inr net \<and> prefixlen net = 24 \<and>
                network_address net = x - x mod 256 \<and>
                get_local_ip_range w [] = Inr (str_network net)"
    using assms g by (simp add: IPv4Network_slash_24 str_network_def s)
  have b: "to_bytes4 (x - x mod 256) = butlast (to_bytes4 x) @ [0]"
    by (simp add: to_bytes4_nested minus_mod_eq_div_mult)
  have "x mod 256 < 256" by simp
  moreover have "x mod 256 \<le> x" by (rule mod_less_eq_dividend)
  ultimately have c: "x - x mod 256 \<le> x \<and> x \<le> x - x mod 256 + 255" by simp
  from g n b c show ?thesis by simp
qed

theorem get_local_ip_range_network_witness:
  "(3232235813::nat) < 2 ^ 32 \<and>
   gethostbyname home_world (gethostname home_world) = Inr (str_ipv4 3232235813) \<and>
   str_ipv4 3232235813 = ''192.168.1.37'' \<and>
   get_local_ip_range home_world [] = Inr ''192.168.1.0/24''"
  using get_local_ip_range_network [of 3232235813 home_world]
  by (simp add: home_world_def quiet_world_def str_ipv4_def to_bytes4_def str_nat.simps
      digit_char_def)

end
